theory Spec2Isabelle
  imports Complex_Main "HOL-Library.Log_Nat"
begin

section \<open>JavaScript numbers\<close>

text \<open>
  The program computes with JavaScript numbers, the binary64 numbers of IEEE 754.  The
  finite ones are modelled as the reals with at most 53 significant bits, and every
  arithmetic operation returns the exact result rounded to the nearest of them, a tie
  going to the even significand.  \<open>binexp x\<close> is the binary exponent of a positive \<open>x\<close>,
  \<open>round_even\<close> rounds to the nearest integer, and \<open>rd\<close> rounds to 53 significant bits.
  The exponent has no bounds in the model: overflow to an infinity and gradual underflow
  are not part of it.
\<close>

function binexp :: "real \<Rightarrow> int" where
  "binexp x =
     (if x \<le> 0 then 0
      else if x < 1 then binexp (2 * x) - 1
      else if 2 \<le> x then binexp (x / 2) + 1
      else 0)"
  by pat_completeness auto
termination
proof (relation "measure (\<lambda>x. if x < 1 then nat \<lceil>- log 2 x\<rceil> else nat \<lfloor>log 2 x\<rfloor>)")
  show "wf (measure (\<lambda>x::real. if x < 1 then nat \<lceil>- log 2 x\<rceil> else nat \<lfloor>log 2 x\<rfloor>))"
    by simp
next
  fix x :: real
  assume a: "\<not> x \<le> 0" "x < 1"
  then have l: "log 2 (2 * x) = 1 + log 2 x"
    by (simp add: log_mult)
  from a have neg: "log 2 x < 0"
    by simp
  have "- log 2 (2 * x) = - log 2 x - 1"
    using l by simp
  then have c: "\<lceil>- log 2 (2 * x)\<rceil> = \<lceil>- log 2 x\<rceil> - 1"
    by (simp only: ceiling_diff_one)
  from neg have pos: "0 < \<lceil>- log 2 x\<rceil>"
    by (simp add: ceiling_less_iff less_ceiling_iff)
  show "(2 * x, x) \<in> measure (\<lambda>x. if x < 1 then nat \<lceil>- log 2 x\<rceil> else nat \<lfloor>log 2 x\<rfloor>)"
  proof (cases "2 * x < 1")
    case True
    with a c pos show ?thesis by simp
  next
    case False
    with a have "2 * x < 2" "1 \<le> 2 * x" by simp_all
    then have "0 \<le> log 2 (2 * x)" "log 2 (2 * x) < 1"
      by (simp_all add: log_less_iff)
    then have "\<lfloor>log 2 (2 * x)\<rfloor> = 0"
      by (simp add: floor_eq_iff)
    with False a pos show ?thesis by simp
  qed
next
  fix x :: real
  assume a: "\<not> x \<le> 0" "\<not> x < 1" "2 \<le> x"
  then have l: "log 2 (x / 2) = log 2 x - 1"
    by (simp add: log_divide)
  from a have "1 \<le> log 2 x"
    by (simp add: le_log_iff)
  then have pos: "1 \<le> \<lfloor>log 2 x\<rfloor>"
    by (simp add: le_floor_iff)
  have f: "\<lfloor>log 2 (x / 2)\<rfloor> = \<lfloor>log 2 x\<rfloor> - 1"
    by (simp only: l floor_diff_one)
  from a have "\<not> x / 2 < 1" by simp
  with a f pos show "(x / 2, x) \<in> measure (\<lambda>x. if x < 1 then nat \<lceil>- log 2 x\<rceil> else nat \<lfloor>log 2 x\<rfloor>)"
    by simp
qed

declare binexp.simps [simp del]

definition round_even :: "real \<Rightarrow> int" where
  "round_even y =
     (let f = \<lfloor>y\<rfloor>; d = y - of_int f
      in if d < 1 / 2 then f else if 1 / 2 < d then f + 1 else if even f then f else f + 1)"

definition rd :: "real \<Rightarrow> real" where
  "rd x =
     (if x = 0 then 0
      else of_int (round_even (x / 2 powi (binexp \<bar>x\<bar> - 52))) * 2 powi (binexp \<bar>x\<bar> - 52))"

definition is_double :: "real \<Rightarrow> bool" where
  "is_double x \<longleftrightarrow> rd x = x"

text \<open>
  The numbers are the finite ones, the two infinities and NaN, with the IEEE 754 rules
  for the special values.  The sign of zero is not part of the model; a division of a
  non-zero number by zero takes the divisor as \<open>+0\<close>.  In \<open>App.jsx\<close> every divisor that
  can be zero is either \<open>Math.sqrt\<close> of a sum of squares or an array length (both \<open>+0\<close>),
  or the numerator is zero as well (NaN for either sign).  \<open>Math.sqrt\<close> is correctly
  rounded by the standard; \<open>Math.exp\<close> and \<open>Math.log\<close> are taken as correctly rounded
  too, which the language does not promise: their last bit is an assumption of the model.
\<close>

datatype jsnum = NaN | NegInf | Fin real | PosInf

fun js_neg :: "jsnum \<Rightarrow> jsnum" where
  "js_neg NaN = NaN"
| "js_neg NegInf = PosInf"
| "js_neg PosInf = NegInf"
| "js_neg (Fin a) = Fin (- a)"

fun js_add :: "jsnum \<Rightarrow> jsnum \<Rightarrow> jsnum" where
  "js_add (Fin a) (Fin b) = Fin (rd (a + b))"
| "js_add NaN _ = NaN"
| "js_add _ NaN = NaN"
| "js_add PosInf NegInf = NaN"
| "js_add NegInf PosInf = NaN"
| "js_add PosInf _ = PosInf"
| "js_add _ PosInf = PosInf"
| "js_add NegInf _ = NegInf"
| "js_add _ NegInf = NegInf"

definition js_sub :: "jsnum \<Rightarrow> jsnum \<Rightarrow> jsnum" where
  "js_sub a b = js_add a (js_neg b)"

text \<open>The infinity whose sign is that of \<open>a\<close>, \<open>a\<close> being non-zero.\<close>

definition inf_of_sign :: "real \<Rightarrow> jsnum" where
  "inf_of_sign a = (if 0 < a then PosInf else NegInf)"

fun js_mul :: "jsnum \<Rightarrow> jsnum \<Rightarrow> jsnum" where
  "js_mul (Fin a) (Fin b) = Fin (rd (a * b))"
| "js_mul NaN _ = NaN"
| "js_mul _ NaN = NaN"
| "js_mul (Fin a) PosInf = (if a = 0 then NaN else inf_of_sign a)"
| "js_mul (Fin a) NegInf = (if a = 0 then NaN else inf_of_sign (- a))"
| "js_mul PosInf (Fin b) = (if b = 0 then NaN else inf_of_sign b)"
| "js_mul NegInf (Fin b) = (if b = 0 then NaN else inf_of_sign (- b))"
| "js_mul PosInf PosInf = PosInf"
| "js_mul NegInf NegInf = PosInf"
| "js_mul PosInf NegInf = NegInf"
| "js_mul NegInf PosInf = NegInf"

fun js_div :: "jsnum \<Rightarrow> jsnum \<Rightarrow> jsnum" where
  "js_div (Fin a) (Fin b) =
     (if b = 0 then (if a = 0 then NaN else inf_of_sign a) else Fin (rd (a / b)))"
| "js_div NaN _ = NaN"
| "js_div _ NaN = NaN"
| "js_div (Fin a) PosInf = Fin 0"
| "js_div (Fin a) NegInf = Fin 0"
| "js_div PosInf (Fin b) = (if 0 \<le> b then PosInf else NegInf)"
| "js_div NegInf (Fin b) = (if 0 \<le> b then NegInf else PosInf)"
| "js_div PosInf _ = NaN"
| "js_div NegInf _ = NaN"

text \<open>\<open>x ** 2\<close> and \<open>Math.pow(x, 2)\<close>, taken as the correctly rounded square.\<close>

fun js_pow2 :: "jsnum \<Rightarrow> jsnum" where
  "js_pow2 NaN = NaN"
| "js_pow2 NegInf = PosInf"
| "js_pow2 PosInf = PosInf"
| "js_pow2 (Fin a) = Fin (rd (a\<^sup>2))"

fun js_sqrt :: "jsnum \<Rightarrow> jsnum" where
  "js_sqrt NaN = NaN"
| "js_sqrt NegInf = NaN"
| "js_sqrt PosInf = PosInf"
| "js_sqrt (Fin a) = (if a < 0 then NaN else Fin (rd (sqrt a)))"

fun js_exp :: "jsnum \<Rightarrow> jsnum" where
  "js_exp NaN = NaN"
| "js_exp NegInf = Fin 0"
| "js_exp PosInf = PosInf"
| "js_exp (Fin a) = Fin (rd (exp a))"

fun js_log :: "jsnum \<Rightarrow> jsnum" where
  "js_log NaN = NaN"
| "js_log NegInf = NaN"
| "js_log PosInf = PosInf"
| "js_log (Fin a) = (if a < 0 then NaN else if a = 0 then NegInf else Fin (rd (ln a)))"

text \<open>The comparison \<open>a <= b\<close>: false as soon as one side is NaN.\<close>

fun js_le :: "jsnum \<Rightarrow> jsnum \<Rightarrow> bool" where
  "js_le (Fin a) (Fin b) = (a \<le> b)"
| "js_le NaN _ = False"
| "js_le _ NaN = False"
| "js_le NegInf _ = True"
| "js_le _ PosInf = True"
| "js_le _ NegInf = False"
| "js_le PosInf _ = False"

text \<open>
  \<open>v || 0\<close> on a number: the falsy numbers are zero and NaN.
\<close>

fun js_or0 :: "jsnum \<Rightarrow> jsnum" where
  "js_or0 NaN = Fin 0"
| "js_or0 v = v"

text \<open>
  \<open>parseFloat(x.toFixed(2))\<close>.  \<open>toFixed(2)\<close> writes the sign and then the integer \<open>n\<close>
  for which \<open>n / 100\<close> is closest to \<open>|x|\<close>, the larger one on a tie; from \<open>10^21\<close> on it
  writes the number itself, as it does for NaN and the infinities.  \<open>parseFloat\<close> reads
  the digits back as the nearest JavaScript number.
\<close>

fun js_round2 :: "jsnum \<Rightarrow> jsnum" where
  "js_round2 (Fin a) =
     (if 10 ^ 21 \<le> \<bar>a\<bar> then Fin a
      else Fin (rd (sgn a * real_of_int \<lfloor>100 * \<bar>a\<bar> + 1 / 2\<rfloor> / 100)))"
| "js_round2 v = v"

section \<open>The statistics library\<close>

text \<open>
  \<open>App.jsx\<close> imports \<open>jStat\<close> from the package \<open>jstat\<close>.  The functions it calls are
  modelled after the package: \<open>jStat.sum\<close> adds the elements from the last to the first,
  \<open>jStat.mean\<close> divides the sum by the length, \<open>jStat.sumsqerr\<close> adds the squared
  differences to the mean, \<open>jStat.variance(arr, flag)\<close> divides that by the length, less
  one when the flag is set, and \<open>jStat.stdev\<close> is its square root.
\<close>

definition jstat_sum :: "jsnum list \<Rightarrow> jsnum" where
  "jstat_sum arr = foldr (\<lambda>a s. js_add s a) arr (Fin 0)"

definition jstat_mean :: "jsnum list \<Rightarrow> jsnum" where
  "jstat_mean arr = js_div (jstat_sum arr) (Fin (real (length arr)))"

definition jstat_sumsqerr :: "jsnum list \<Rightarrow> jsnum" where
  "jstat_sumsqerr arr =
     (let mean = jstat_mean arr
      in foldr (\<lambda>a s. let tmp = js_sub a mean in js_add s (js_mul tmp tmp)) arr (Fin 0))"

definition jstat_variance :: "jsnum list \<Rightarrow> bool \<Rightarrow> jsnum" where
  "jstat_variance arr flag =
     js_div (jstat_sumsqerr arr)
       (Fin (real_of_int (int (length arr) - (if flag then 1 else 0))))"

definition jstat_stdev :: "jsnum list \<Rightarrow> bool \<Rightarrow> jsnum" where
  "jstat_stdev arr flag = js_sqrt (jstat_variance arr flag)"

text \<open>
  The Distribution Estimator is the body of \<open>scores.map\<close> in \<open>calculate\<close>:
  \<open>[jStat.mean(s), jStat.stdev(s, true)]\<close>.
\<close>

definition estimate :: "jsnum list \<Rightarrow> jsnum \<times> jsnum" where
  "estimate s = (jstat_mean s, jstat_stdev s True)"


subsection \<open>The error function\<close>

text \<open>
  \<open>jStat.erf\<close> is a numerical approximation of the error function, by a Chebyshev series
  and \<open>Math.exp\<close>.  The model takes the error function itself, rounded: \<open>gauss_int x\<close> is
  the power series of the integral of \<open>exp (- t\<^sup>2)\<close> from \<open>0\<close> to \<open>x\<close>, and \<open>erf\<close> divides it
  by its supremum, the value of the integral from \<open>0\<close> to infinity, so that \<open>erf\<close> tends to
  \<open>1\<close>.  The last bits of what \<open>jStat.erf\<close> returns are therefore not those of the model.
  On the special values \<open>jStat.erf\<close> returns \<open>1\<close> at \<open>Infinity\<close>, \<open>-1\<close> at \<open>-Infinity\<close> and
  NaN at NaN.
\<close>

definition gauss_term :: "real \<Rightarrow> nat \<Rightarrow> real" where
  "gauss_term x n = (- 1) ^ n * x ^ (2 * n + 1) / (fact n * real (2 * n + 1))"

definition gauss_int :: "real \<Rightarrow> real" where
  "gauss_int x = (\<Sum>n. gauss_term x n)"

definition gauss_total :: real where
  "gauss_total = (SUP x. gauss_int x)"

definition erf :: "real \<Rightarrow> real" where
  "erf x = gauss_int x / gauss_total"

fun js_erf :: "jsnum \<Rightarrow> jsnum" where
  "js_erf NaN = NaN"
| "js_erf NegInf = Fin (- 1)"
| "js_erf PosInf = Fin 1"
| "js_erf (Fin a) = Fin (rd (erf a))"

subsection \<open>The normal distribution\<close>

text \<open>
  \<open>jStat.normal.pdf(x, mean, std)\<close> is
  \<open>Math.exp(-0.5 * Math.log(2 * Math.PI) - Math.log(std) - Math.pow(x - mean, 2) / (2 * std * std))\<close>
  and \<open>jStat.normal.cdf(x, mean, std)\<close> is
  \<open>0.5 * (1 + jStat.erf((x - mean) / Math.sqrt(2 * std * std)))\<close>.
\<close>

definition normal_pdf :: "jsnum \<Rightarrow> jsnum \<Rightarrow> jsnum \<Rightarrow> jsnum" where
  "normal_pdf x mean std =
     js_exp (js_sub
       (js_sub (js_mul (Fin (- 0.5)) (js_log (js_mul (Fin 2) (Fin (rd pi))))) (js_log std))
       (js_div (js_pow2 (js_sub x mean)) (js_mul (js_mul (Fin 2) std) std)))"

definition normal_cdf :: "jsnum \<Rightarrow> jsnum \<Rightarrow> jsnum \<Rightarrow> jsnum" where
  "normal_cdf x mean std =
     js_mul (Fin 0.5)
       (js_add (Fin 1)
          (js_erf (js_div (js_sub x mean) (js_sqrt (js_mul (js_mul (Fin 2) std) std)))))"

text \<open>
  The standard normal cumulative distribution function \<open>\<Phi>\<close> on the reals, and what
  \<open>jStat.normal.cdf(z, 0, 1)\<close> computes on every JavaScript number.
\<close>

definition Phi :: "real \<Rightarrow> real" where
  "Phi z = (1 + erf (z / sqrt 2)) / 2"

definition js_Phi :: "jsnum \<Rightarrow> jsnum" where
  "js_Phi z = normal_cdf z (Fin 0) (Fin 1)"

section \<open>The program\<close>

subsection \<open>Match records and the Score Aggregator\<close>

text \<open>
  The answers of the two requests are data of the model: \<open>events_of\<close> gives the parsed
  answer of \<open>/teams/<team>/events/2024\<close> and \<open>matches_of\<close> that of
  \<open>/events/2024/<event>/matches\<close>.  A request that fails or does not answer is outside
  the model.  The point components of a score are JSON numbers, hence finite; the
  fields of \<open>score_entry\<close> hold the numbers as parsed.  The \<open>stats\<close> of an event is only
  compared with \<open>null\<close>.
\<close>

record event_entry =
  eventCode :: string
  stats :: "unit option"

record team_entry =
  teamNumber :: int
  alliance :: string

record score_entry =
  autoSpecimenPoints :: real
  autoSamplePoints :: real
  dcSpecimenPoints :: real
  dcSamplePoints :: real

record match_entry =
  teams :: "team_entry list option"
  scores :: "(string \<times> score_entry) list option"

record api =
  events_of :: "int \<Rightarrow> event_entry list"
  matches_of :: "string \<Rightarrow> match_entry list"

record match_results =
  autoSpecimen :: "jsnum list"
  autoSample :: "jsnum list"
  dcSpecimen :: "jsnum list"
  dcSample :: "jsnum list"

definition getEventCodes :: "api \<Rightarrow> int \<Rightarrow> string list" where
  "getEventCodes a teamNumber' =
     map eventCode (filter (\<lambda>entry. stats entry \<noteq> None) (events_of a teamNumber'))"

definition toLowerChar :: "char \<Rightarrow> char" where
  "toLowerChar c =
     (let n = (of_char c :: nat) in if 65 \<le> n \<and> n \<le> 90 then char_of (n + 32) else c)"

definition toLowerCase :: "string \<Rightarrow> string" where
  "toLowerCase s = map toLowerChar s"

text \<open>
  The score entry the loop of \<open>getMatches\<close> reads for one match: the first team entry
  with the team's number (\<open>match.teams || []\<close> being empty when there are no teams), then
  \<open>match.scores?.[color]\<close>.  \<open>None\<close> is the match the loop pushes nothing for.
\<close>

definition score_of :: "int \<Rightarrow> match_entry \<Rightarrow> score_entry option" where
  "score_of teamNumber' m =
     (case find (\<lambda>t. teamNumber t = teamNumber')
             (case teams m of None \<Rightarrow> [] | Some ts \<Rightarrow> ts) of
        None \<Rightarrow> None
      | Some teamEntry \<Rightarrow>
          (let color = toLowerCase (alliance teamEntry)
           in case scores m of None \<Rightarrow> None | Some sc \<Rightarrow> map_of sc color))"

definition getMatches_step :: "int \<Rightarrow> match_results \<Rightarrow> match_entry \<Rightarrow> match_results" where
  "getMatches_step teamNumber' results m =
     (case score_of teamNumber' m of
        None \<Rightarrow> results
      | Some score \<Rightarrow>
          \<lparr>autoSpecimen = autoSpecimen results @ [Fin (autoSpecimenPoints score)],
           autoSample = autoSample results @ [Fin (autoSamplePoints score)],
           dcSpecimen = dcSpecimen results @ [Fin (dcSpecimenPoints score)],
           dcSample = dcSample results @ [Fin (dcSamplePoints score)]\<rparr>)"

definition getMatches :: "api \<Rightarrow> string \<Rightarrow> int \<Rightarrow> match_results" where
  "getMatches a eventCode' teamNumber' =
     foldl (getMatches_step teamNumber')
       \<lparr>autoSpecimen = [], autoSample = [], dcSpecimen = [], dcSample = []\<rparr>
       (matches_of a eventCode')"

text \<open>\<open>b[i] || 0\<close>: an index past the end reads \<open>undefined\<close>, which is falsy.\<close>

definition nth_or0 :: "jsnum list \<Rightarrow> nat \<Rightarrow> jsnum" where
  "nth_or0 b i = (if i < length b then js_or0 (b ! i) else Fin 0)"

definition addArrays :: "jsnum list \<Rightarrow> jsnum list \<Rightarrow> jsnum list" where
  "addArrays a b = map (\<lambda>(v, i). js_add v (nth_or0 b i)) (zip a [0..<length a])"

definition addScalar :: "jsnum list \<Rightarrow> jsnum \<Rightarrow> jsnum list" where
  "addScalar arr scalar = map (\<lambda>v. js_add v scalar) arr"

definition getAllScores :: "api \<Rightarrow> int \<Rightarrow> string \<Rightarrow> string \<Rightarrow> jsnum \<Rightarrow> jsnum list" where
  "getAllScores a team auto' tele endgame =
     foldl (\<lambda>allScores event.
         (let m = getMatches a event team;
              total = (if auto' = ''s'' then autoSample m else autoSpecimen m);
              total = (if tele = ''s'' then addArrays total (dcSample m)
                       else addArrays total (dcSpecimen m));
              total = addScalar total endgame
          in allScores @ total))
       [] (getEventCodes a team)"

subsection \<open>The Win Probability Calculator\<close>

definition allianceWinProbability ::
  "jsnum \<Rightarrow> jsnum \<Rightarrow> jsnum \<Rightarrow> jsnum \<Rightarrow> jsnum \<Rightarrow> jsnum \<Rightarrow> jsnum \<Rightarrow> jsnum \<Rightarrow> jsnum" where
  "allianceWinProbability mu1 sigma1 mu2 sigma2 mu3 sigma3 mu4 sigma4 =
     (let muA = js_add mu1 mu2; varA = js_add (js_pow2 sigma1) (js_pow2 sigma2);
          muB = js_add mu3 mu4; varB = js_add (js_pow2 sigma3) (js_pow2 sigma4);
          muD = js_sub muA muB; sigmaD = js_sqrt (js_add varA varB)
      in normal_cdf (js_div muD sigmaD) (Fin 0) (Fin 1))"

text \<open>
  The Alliance Combiner has no function of its own in \<open>App.jsx\<close>: it is the pair of
  bindings \<open>muA = mu1 + mu2, varA = sigma1 ** 2 + sigma2 ** 2\<close> (and \<open>muB\<close>, \<open>varB\<close>) of
  \<open>allianceWinProbability\<close>.  \<open>combine\<close> names that pair, from two (mean, stddev) pairs.
\<close>

definition combine :: "jsnum \<times> jsnum \<Rightarrow> jsnum \<times> jsnum \<Rightarrow> jsnum \<times> jsnum" where
  "combine A B = (js_add (fst A) (fst B), js_add (js_pow2 (snd A)) (js_pow2 (snd B)))"

subsection \<open>The Curve Generator\<close>

record curve_point =
  point_x :: jsnum
  point_y :: jsnum
  point_label :: string

text \<open>
  The loop \<open>for (let x = min; x <= max; x += step)\<close>, with the array \<open>data\<close> it pushes to.
  \<open>None\<close> is the loop that never ends.
\<close>

partial_function (option) generateNormalData_loop ::
  "jsnum \<Rightarrow> jsnum \<Rightarrow> jsnum \<Rightarrow> jsnum \<Rightarrow> jsnum \<Rightarrow> string \<Rightarrow> curve_point list
     \<Rightarrow> curve_point list option" where
  "generateNormalData_loop x mx step mean std label data =
     (if js_le x mx
      then generateNormalData_loop (js_add x step) mx step mean std label
             (data @ [\<lparr>point_x = js_round2 x, point_y = normal_pdf x mean std,
                       point_label = label\<rparr>])
      else Some data)"

definition generateNormalData :: "jsnum \<Rightarrow> jsnum \<Rightarrow> string \<Rightarrow> curve_point list option" where
  "generateNormalData mean std label =
     (let mn = js_sub mean (js_mul (Fin 3) std);
          mx = js_add mean (js_mul (Fin 3) std);
          step = js_div (js_sub mx mn) (Fin 50)
      in generateNormalData_loop mn mx step mean std label [])"

subsection \<open>The calculation\<close>

text \<open>
  \<open>calculate_try\<close> is the \<open>try\<close> block of \<open>calculate\<close>, entered once the inputs have passed
  the validation: \<open>number\<close> and \<open>endgame\<close> are the integers written in the two text
  fields, and \<open>parseInt\<close> returns the JavaScript number nearest to \<open>endgame\<close>.  The state
  it leaves holds the error message, the probability that \<open>setResult\<close> formats, and the
  chart data.  Nothing in the block throws but a failing request, so within the model
  \<open>setError\<close> is never reached.  \<open>None\<close> is the calculation that never ends.
\<close>

record team =
  number :: int
  auto :: string
  tele :: string
  endgame :: int

record ui_state =
  error :: "string option"
  result :: "jsnum option"
  chartData :: "curve_point list"

definition team_scores :: "api \<Rightarrow> team \<Rightarrow> jsnum list" where
  "team_scores a t =
     getAllScores a (number t) (auto t) (tele t) (Fin (rd (real_of_int (endgame t))))"

definition calculate_try :: "api \<Rightarrow> team \<times> team \<times> team \<times> team \<Rightarrow> ui_state option" where
  "calculate_try a ts =
     (case ts of (t0, t1, t2, t3) \<Rightarrow>
        (let stats0 = estimate (team_scores a t0);
             stats1 = estimate (team_scores a t1);
             stats2 = estimate (team_scores a t2);
             stats3 = estimate (team_scores a t3);
             winProb = allianceWinProbability (fst stats0) (snd stats0) (fst stats1) (snd stats1)
                         (fst stats2) (snd stats2) (fst stats3) (snd stats3)
         in case generateNormalData (js_add (fst stats0) (fst stats1))
                   (js_sqrt (js_add (js_pow2 (snd stats0)) (js_pow2 (snd stats1))))
                   ''Red Alliance'' of
              None \<Rightarrow> None
            | Some redData \<Rightarrow>
                (case generateNormalData (js_add (fst stats2) (fst stats3))
                        (js_sqrt (js_add (js_pow2 (snd stats2)) (js_pow2 (snd stats3))))
                        ''Blue Alliance'' of
                   None \<Rightarrow> None
                 | Some blueData \<Rightarrow>
                     Some \<lparr>error = None, result = Some winProb,
                           chartData = redData @ blueData\<rparr>)))"

section \<open>Auxiliary definitions\<close>

text \<open>
  The coefficients of \<open>gauss_int\<close> as a power series in \<open>x\<close>: the series has odd powers
  only.
\<close>

definition gauss_coeff :: "nat \<Rightarrow> real" where
  "gauss_coeff k = (if odd k then (- 1) ^ (k div 2) / (fact (k div 2) * real k) else 0)"

text \<open>The point the loop of \<open>generateNormalData\<close> pushes at a finite \<open>x\<close>.\<close>

definition curve_point_at :: "jsnum \<Rightarrow> jsnum \<Rightarrow> string \<Rightarrow> real \<Rightarrow> curve_point" where
  "curve_point_at mean std label x =
     \<lparr>point_x = js_round2 (Fin x), point_y = normal_pdf (Fin x) mean std, point_label = label\<rparr>"

text \<open>
  The Score Aggregator in the words of the specification, to be compared with
  \<open>getAllScores\<close>: the score entries of the matches of an event that hold one for the
  team, the total of one match for a choice of the two components, and the series over
  the events with statistics.
\<close>

definition usable_scores :: "api \<Rightarrow> int \<Rightarrow> string \<Rightarrow> score_entry list" where
  "usable_scores a team event = List.map_filter (score_of team) (matches_of a event)"

definition match_total :: "bool \<Rightarrow> bool \<Rightarrow> real \<Rightarrow> score_entry \<Rightarrow> jsnum" where
  "match_total auto_sample tele_sample e s =
     js_add (js_add (Fin (if auto_sample then autoSamplePoints s else autoSpecimenPoints s))
               (Fin (if tele_sample then dcSamplePoints s else dcSpecimenPoints s)))
       (Fin e)"

definition aggregate :: "api \<Rightarrow> int \<Rightarrow> bool \<Rightarrow> bool \<Rightarrow> real \<Rightarrow> jsnum list" where
  "aggregate a team auto_sample tele_sample e =
     concat (map (\<lambda>event. map (match_total auto_sample tele_sample e) (usable_scores a team event))
                 (getEventCodes a team))"



text \<open>
  What \<open>jStat.normal.cdf(z, 0, 1)\<close> computes at a finite \<open>z\<close>, operation by operation, and
  what \<open>allianceWinProbability\<close> computes as \<open>muD\<close> and \<open>sigmaD\<close> on finite parameters.
\<close>

definition Phi64 :: "real \<Rightarrow> real" where
  "Phi64 z = rd (1 / 2 * rd (1 + rd (erf (rd (rd (z - 0) / rd (sqrt (rd (rd (2 * 1) * 1))))))))"

definition muD64 :: "real \<Rightarrow> real \<Rightarrow> real \<Rightarrow> real \<Rightarrow> real" where
  "muD64 m1 m2 m3 m4 = rd (rd (m1 + m2) - rd (m3 + m4))"

definition sigmaD64 :: "real \<Rightarrow> real \<Rightarrow> real \<Rightarrow> real \<Rightarrow> real" where
  "sigmaD64 s1 s2 s3 s4 =
     rd (sqrt (rd (rd (rd (s1\<^sup>2) + rd (s2\<^sup>2)) + rd (rd (s3\<^sup>2) + rd (s4\<^sup>2)))))"

text \<open>
  What \<open>generateNormalData\<close> computes as \<open>min\<close>, \<open>max\<close> and \<open>step\<close> on a finite mean and a
  finite standard deviation.
\<close>

definition min64 :: "real \<Rightarrow> real \<Rightarrow> real" where
  "min64 m s = rd (m - rd (3 * s))"

definition max64 :: "real \<Rightarrow> real \<Rightarrow> real" where
  "max64 m s = rd (m + rd (3 * s))"

definition step64 :: "real \<Rightarrow> real \<Rightarrow> real" where
  "step64 m s = rd (rd (max64 m s - min64 m s) / 50)"

text \<open>
  The JavaScript numbers proper: a finite one has at most 53 significant bits.  The
  curve \<open>calculate\<close> asks for, for the alliance of two teams.
\<close>

fun js_double :: "jsnum \<Rightarrow> bool" where
  "js_double (Fin v) = is_double v"
| "js_double v = True"

definition alliance_curve :: "api \<Rightarrow> team \<Rightarrow> team \<Rightarrow> string \<Rightarrow> curve_point list option" where
  "alliance_curve a t t' label =
     generateNormalData
       (js_add (fst (estimate (team_scores a t))) (fst (estimate (team_scores a t'))))
       (js_sqrt (js_add (js_pow2 (snd (estimate (team_scores a t))))
                  (js_pow2 (snd (estimate (team_scores a t'))))))
       label"

text \<open>
  Rounding on the integers: \<open>rne n d\<close> is the integer nearest to \<open>n / d\<close>, a tie going to
  the even one, and \<open>rd_int n\<close> is \<open>n\<close> rounded to 53 significant bits.  The sampling loop
  on the multiples of \<open>2 ^ q\<close>: \<open>itrace k m M a\<close> lists the values that \<open>x\<close> takes, as
  multiples of the unit, from \<open>a\<close> on with the step \<open>m\<close> and the bound \<open>M\<close>, when there are
  at most \<open>k\<close> of them.
\<close>

definition rne :: "int \<Rightarrow> int \<Rightarrow> int" where
  "rne n d =
     (let q = n div d; r = n mod d
      in if 2 * r < d then q else if d < 2 * r then q + 1 else if even q then q else q + 1)"

definition rd_int :: "int \<Rightarrow> int" where
  "rd_int n =
     (let j = bitlen \<bar>n\<bar> - 53
      in if j \<le> 0 then n else rne n (2 ^ nat j) * 2 ^ nat j)"

fun itrace :: "nat \<Rightarrow> int \<Rightarrow> int \<Rightarrow> int \<Rightarrow> int list option" where
  "itrace 0 m M a = None"
| "itrace (Suc k) m M a =
     (if a \<le> M then map_option ((#) a) (itrace k m M (rd_int (a + m))) else Some [])"

text \<open>
  Answers of the two requests, and teams, for the examples.  In \<open>example_api\<close> there is one
  event with statistics, in which team 1 has one match with a score entry and one match
  without scores, and team 2 has no match.  In \<open>steady_api\<close> team 3 has two matches with
  the same scores.
\<close>

definition example_api :: api where
  "example_api =
     \<lparr>events_of = (\<lambda>team. [\<lparr>eventCode = ''USCALA'', stats = Some ()\<rparr>,
                            \<lparr>eventCode = ''USCASD'', stats = None\<rparr>]),
      matches_of = (\<lambda>event.
        [\<lparr>teams = Some [\<lparr>teamNumber = 7, alliance = ''Blue''\<rparr>, \<lparr>teamNumber = 1, alliance = ''Red''\<rparr>],
          scores = Some [(''red'', \<lparr>autoSpecimenPoints = 10, autoSamplePoints = 20,
                                   dcSpecimenPoints = 30, dcSamplePoints = 40\<rparr>),
                         (''blue'', \<lparr>autoSpecimenPoints = 1, autoSamplePoints = 2,
                                    dcSpecimenPoints = 3, dcSamplePoints = 4\<rparr>)]\<rparr>,
         \<lparr>teams = Some [\<lparr>teamNumber = 7, alliance = ''Red''\<rparr>], scores = None\<rparr>,
         \<lparr>teams = Some [\<lparr>teamNumber = 1, alliance = ''Red''\<rparr>], scores = None\<rparr>,
         \<lparr>teams = None, scores = None\<rparr>])\<rparr>"

definition example_team :: team where
  "example_team = \<lparr>number = 1, auto = ''S'', tele = ''S'', endgame = 30\<rparr>"

definition steady_api :: api where
  "steady_api =
     \<lparr>events_of = (\<lambda>team. [\<lparr>eventCode = ''USCALA'', stats = Some ()\<rparr>]),
      matches_of = (\<lambda>event.
        [\<lparr>teams = Some [\<lparr>teamNumber = 1, alliance = ''Red''\<rparr>, \<lparr>teamNumber = 3, alliance = ''Blue''\<rparr>],
          scores = Some [(''red'', \<lparr>autoSpecimenPoints = 10, autoSamplePoints = 20,
                                   dcSpecimenPoints = 30, dcSamplePoints = 40\<rparr>),
                         (''blue'', \<lparr>autoSpecimenPoints = 1, autoSamplePoints = 2,
                                    dcSpecimenPoints = 3, dcSamplePoints = 4\<rparr>)]\<rparr>,
         \<lparr>teams = Some [\<lparr>teamNumber = 3, alliance = ''Blue''\<rparr>],
          scores = Some [(''blue'', \<lparr>autoSpecimenPoints = 1, autoSamplePoints = 2,
                                    dcSpecimenPoints = 3, dcSamplePoints = 4\<rparr>)]\<rparr>])\<rparr>"

definition steady_team :: team where
  "steady_team = \<lparr>number = 3, auto = ''S'', tele = ''S'', endgame = 30\<rparr>"

section \<open>Rounding to 53 bits\<close>

lemma binexp_bounds: "0 < x \<Longrightarrow> 2 powi binexp x \<le> x \<and> x < 2 powi (binexp x + 1)"
proof (induction x rule: binexp.induct)
  case (1 x)
  show ?case
  proof (cases "x < 1")
    case True
    with 1 have IH: "2 powi binexp (2 * x) \<le> 2 * x \<and> 2 * x < 2 powi (binexp (2 * x) + 1)"
      by simp
    have b: "binexp x = binexp (2 * x) - 1"
      using True 1(3) by (subst binexp.simps) simp
    have "(2::real) powi (binexp (2 * x) - 1) = 2 powi binexp (2 * x) / 2"
      by (simp add: power_int_diff)
    moreover have "(2::real) powi (binexp (2 * x) + 1) = 2 powi binexp (2 * x) * 2"
      by (simp add: power_int_add)
    ultimately show ?thesis using IH unfolding b by simp
  next
    case False
    show ?thesis
    proof (cases "2 \<le> x")
      case True
      with 1 False have IH: "2 powi binexp (x / 2) \<le> x / 2 \<and> x / 2 < 2 powi (binexp (x / 2) + 1)"
        by simp
      have b: "binexp x = binexp (x / 2) + 1"
        using True False 1(3) by (subst binexp.simps) simp
      have "(2::real) powi (binexp (x / 2) + 1) = 2 powi binexp (x / 2) * 2"
        by (simp add: power_int_add)
      moreover have "(2::real) powi (binexp (x / 2) + 1 + 1) = 2 powi binexp (x / 2) * 2 * 2"
        by (simp add: power_int_add)
      ultimately show ?thesis using IH unfolding b by simp
    next
      case F2: False
      have b: "binexp x = 0"
        using False F2 1(3) by (subst binexp.simps) simp
      show ?thesis using False F2 unfolding b by simp
    qed
  qed
qed

lemma binexp_unique:
  assumes "2 powi k \<le> x" "x < 2 powi (k + 1)"
  shows "binexp x = k"
proof -
  have "0 < (2::real) powi k" by simp
  then have pos: "0 < x" using assms(1) by linarith
  from binexp_bounds [OF pos] have b: "2 powi binexp x \<le> x" "x < 2 powi (binexp x + 1)" by auto
  have "(2::real) powi k < 2 powi (binexp x + 1)" using assms(1) b(2) by linarith
  then have 1: "k < binexp x + 1"
    using power_int_increasing [of "binexp x + 1" k "2::real"] by (cases "k < binexp x + 1") auto
  have "(2::real) powi binexp x < 2 powi (k + 1)" using assms(2) b(1) by linarith
  then have 2: "binexp x < k + 1"
    using power_int_increasing [of "k + 1" "binexp x" "2::real"] by (cases "binexp x < k + 1") auto
  from 1 2 show ?thesis by simp
qed

lemma round_even_of_int [simp]: "round_even (of_int n) = n"
  by (simp add: round_even_def)

lemma round_even_low: "y - of_int \<lfloor>y\<rfloor> < 1 / 2 \<Longrightarrow> round_even y = \<lfloor>y\<rfloor>"
  by (simp add: round_even_def Let_def)

lemma round_even_high: "1 / 2 < y - of_int \<lfloor>y\<rfloor> \<Longrightarrow> round_even y = \<lfloor>y\<rfloor> + 1"
  by (simp add: round_even_def Let_def)

lemma round_even_tie:
  "y - of_int \<lfloor>y\<rfloor> = 1 / 2 \<Longrightarrow> round_even y = (if even \<lfloor>y\<rfloor> then \<lfloor>y\<rfloor> else \<lfloor>y\<rfloor> + 1)"
  by (simp add: round_even_def Let_def)

lemma round_even_floor: "\<lfloor>y\<rfloor> \<le> round_even y \<and> round_even y \<le> \<lfloor>y\<rfloor> + 1"
  by (simp add: round_even_def Let_def)

lemma round_even_error: "\<bar>of_int (round_even y) - y\<bar> \<le> 1 / 2"
proof -
  have fl: "of_int \<lfloor>y\<rfloor> \<le> y" "y < of_int \<lfloor>y\<rfloor> + 1" by linarith+
  consider "y - of_int \<lfloor>y\<rfloor> < 1 / 2" | "1 / 2 < y - of_int \<lfloor>y\<rfloor>" | "y - of_int \<lfloor>y\<rfloor> = 1 / 2"
    by linarith
  then show ?thesis
  proof cases
    case 1
    then show ?thesis using fl by (simp add: round_even_low)
  next
    case 2
    then show ?thesis using fl by (simp add: round_even_high)
  next
    case 3
    then show ?thesis using fl by (simp add: round_even_tie)
  qed
qed

lemma round_even_mono:
  assumes "y \<le> z"
  shows "round_even y \<le> round_even z"
proof (cases "\<lfloor>y\<rfloor> = \<lfloor>z\<rfloor>")
  case True
  have d: "y - of_int \<lfloor>y\<rfloor> \<le> z - of_int \<lfloor>y\<rfloor>" using assms by simp
  show ?thesis
    unfolding round_even_def Let_def True [symmetric] using d by auto
next
  case False
  then have "\<lfloor>y\<rfloor> + 1 \<le> \<lfloor>z\<rfloor>" using floor_mono [OF assms] by simp
  then show ?thesis using round_even_floor [of y] round_even_floor [of z] by linarith
qed

lemma floor_minus_nonint:
  assumes "y \<noteq> of_int \<lfloor>y\<rfloor>"
  shows "\<lfloor>- y\<rfloor> = - \<lfloor>y\<rfloor> - 1"
proof (rule floor_unique)
  have "of_int \<lfloor>y\<rfloor> < y" using assms by (metis floor_correct order_less_le of_int_floor_le)
  moreover have "y < of_int \<lfloor>y\<rfloor> + 1" by linarith
  ultimately show "of_int (- \<lfloor>y\<rfloor> - 1) \<le> - y" "- y < of_int (- \<lfloor>y\<rfloor> - 1) + 1"
    by simp_all
qed

lemma round_even_minus: "round_even (- y) = - round_even y"
proof (cases "y = of_int \<lfloor>y\<rfloor>")
  case True
  then obtain n :: int where n: "y = of_int n" by metis
  have "- y = of_int (- n)" by (simp add: n)
  then have "round_even (- y) = - n" by (simp only: round_even_of_int)
  then show ?thesis by (simp add: n)
next
  case False
  note f = floor_minus_nonint [OF False]
  have fl: "of_int \<lfloor>y\<rfloor> \<le> y" "y < of_int \<lfloor>y\<rfloor> + 1" by linarith+
  consider "y - of_int \<lfloor>y\<rfloor> < 1 / 2" | "1 / 2 < y - of_int \<lfloor>y\<rfloor>" | "y - of_int \<lfloor>y\<rfloor> = 1 / 2"
    by linarith
  then show ?thesis
  proof cases
    case 1
    then have "1 / 2 < - y - of_int \<lfloor>- y\<rfloor>" unfolding f by simp
    then show ?thesis using 1 by (simp add: round_even_low round_even_high f)
  next
    case 2
    then have "- y - of_int \<lfloor>- y\<rfloor> < 1 / 2" unfolding f by simp
    then show ?thesis using 2 by (simp add: round_even_low round_even_high f)
  next
    case 3
    then have "- y - of_int \<lfloor>- y\<rfloor> = 1 / 2" unfolding f by simp
    then show ?thesis using 3 by (simp add: round_even_tie f)
  qed
qed

lemma rd_0 [simp]: "rd 0 = 0"
  by (simp add: rd_def)

lemma rd_eval:
  assumes "2 powi k \<le> \<bar>x\<bar>" "\<bar>x\<bar> < 2 powi (k + 1)"
  shows "rd x = of_int (round_even (x / 2 powi (k - 52))) * 2 powi (k - 52)"
proof -
  have "0 < (2::real) powi k" by simp
  then have "0 < \<bar>x\<bar>" using assms(1) by linarith
  then have "x \<noteq> 0" by simp
  moreover have "binexp \<bar>x\<bar> = k" by (rule binexp_unique [OF assms])
  ultimately show ?thesis by (simp add: rd_def)
qed

lemma rd_minus: "rd (- x) = - rd x"
  by (simp add: rd_def round_even_minus)

lemma abs_bounds:
  assumes "x \<noteq> 0"
  shows "2 powi binexp \<bar>x\<bar> \<le> \<bar>x\<bar>" "\<bar>x\<bar> < 2 powi (binexp \<bar>x\<bar> + 1)"
  using binexp_bounds [of "\<bar>x\<bar>"] assms by auto

text \<open>The scaled value lies between 2^52 and 2^53 in absolute value.\<close>

lemma scaled_bounds:
  assumes "x \<noteq> 0"
  shows "2 ^ 52 \<le> \<bar>x / 2 powi (binexp \<bar>x\<bar> - 52)\<bar>" "\<bar>x / 2 powi (binexp \<bar>x\<bar> - 52)\<bar> < 2 ^ 53"
proof -
  let ?k = "binexp \<bar>x\<bar>"
  have p: "(2::real) powi ?k = 2 powi (?k - 52) * 2 ^ 52"
    using power_int_add [of "2::real" "?k - 52" 52] by simp
  have q: "(2::real) powi (?k + 1) = 2 powi (?k - 52) * 2 ^ 53"
    using power_int_add [of "2::real" "?k - 52" 53] by (simp add: add.commute)
  have pos: "0 < (2::real) powi (?k - 52)" by simp
  have a: "\<bar>x / 2 powi (?k - 52)\<bar> = \<bar>x\<bar> / 2 powi (?k - 52)" by (simp add: abs_divide)
  from abs_bounds(1) [OF assms] have "2 powi (?k - 52) * 2 ^ 52 \<le> \<bar>x\<bar>" unfolding p .
  then show "2 ^ 52 \<le> \<bar>x / 2 powi (?k - 52)\<bar>"
    unfolding a using pos by (simp add: pos_le_divide_eq mult.commute)
  from abs_bounds(2) [OF assms] have "\<bar>x\<bar> < 2 powi (?k - 52) * 2 ^ 53" unfolding q .
  then show "\<bar>x / 2 powi (?k - 52)\<bar> < 2 ^ 53"
    unfolding a using pos by (simp add: pos_divide_less_eq mult.commute)
qed

lemma rd_error: "\<bar>rd x - x\<bar> \<le> \<bar>x\<bar> / 2 ^ 53"
proof (cases "x = 0")
  case True
  then show ?thesis by simp
next
  case False
  let ?e = "binexp \<bar>x\<bar> - 52"
  let ?s = "(2::real) powi ?e"
  have pos: "0 < ?s" by simp
  have "rd x - x = (of_int (round_even (x / ?s)) - x / ?s) * ?s"
    using False by (simp add: rd_def algebra_simps)
  then have "\<bar>rd x - x\<bar> = \<bar>of_int (round_even (x / ?s)) - x / ?s\<bar> * ?s"
    using pos by (simp add: abs_mult)
  also have "\<dots> \<le> 1 / 2 * ?s"
    using round_even_error [of "x / ?s"] pos by (intro mult_right_mono) simp_all
  also have "\<dots> \<le> \<bar>x\<bar> / 2 ^ 53"
  proof -
    have "2 ^ 52 * ?s \<le> \<bar>x\<bar>"
      using scaled_bounds(1) [OF False] pos by (simp add: abs_divide pos_le_divide_eq)
    then show ?thesis by simp
  qed
  finally show ?thesis .
qed

lemma rd_scaled: "x \<noteq> 0 \<Longrightarrow> rd x = of_int (round_even (x / 2 powi (binexp \<bar>x\<bar> - 52))) * 2 powi (binexp \<bar>x\<bar> - 52)"
  by (simp add: rd_def)

lemma rd_bounds_pos:
  assumes "0 < x"
  shows "2 powi (binexp x) \<le> rd x" "rd x \<le> 2 powi (binexp x + 1)"
proof -
  let ?e = "binexp x - 52"
  let ?s = "(2::real) powi ?e"
  have x: "x \<noteq> 0" "\<bar>x\<bar> = x" using assms by auto
  have pos: "0 < ?s" by simp
  have sc: "2 ^ 52 \<le> x / ?s" "x / ?s < 2 ^ 53"
    using scaled_bounds [OF x(1)] assms pos unfolding x(2) by (simp_all add: abs_divide)
  have "round_even (of_int (2 ^ 52)) \<le> round_even (x / ?s)"
    by (rule round_even_mono) (use sc(1) in simp)
  then have lo: "(2 ^ 52 :: real) \<le> of_int (round_even (x / ?s))"
    by (simp only: round_even_of_int) (metis of_int_le_iff of_int_numeral of_int_power)
  have "round_even (x / ?s) \<le> round_even (of_int (2 ^ 53))"
    by (rule round_even_mono) (use sc(2) in simp)
  then have hi: "of_int (round_even (x / ?s)) \<le> (2 ^ 53 :: real)"
    by (simp only: round_even_of_int) (metis of_int_le_iff of_int_numeral of_int_power)
  have r: "rd x = of_int (round_even (x / ?s)) * ?s"
    using rd_scaled [OF x(1)] unfolding x(2) .
  have p: "(2::real) powi binexp x = 2 ^ 52 * ?s"
    using power_int_add [of "2::real" 52 "?e"] by simp
  have q: "(2::real) powi (binexp x + 1) = 2 ^ 53 * ?s"
    using power_int_add [of "2::real" 53 "?e"] by (simp add: add.commute)
  show "2 powi (binexp x) \<le> rd x"
    unfolding r p using lo pos by (intro mult_right_mono) simp_all
  show "rd x \<le> 2 powi (binexp x + 1)"
    unfolding r q using hi pos by (intro mult_right_mono) simp_all
qed

lemma rd_pos: "0 < x \<Longrightarrow> 0 < rd x"
proof -
  assume "0 < x"
  from rd_bounds_pos(1) [OF this] have "2 powi binexp x \<le> rd x" .
  moreover have "0 < (2::real) powi binexp x" by simp
  ultimately show ?thesis by linarith
qed

lemma rd_neg: "x < 0 \<Longrightarrow> rd x < 0"
  using rd_pos [of "- x"] by (simp add: rd_minus)

lemma rd_nonneg: "0 \<le> x \<Longrightarrow> 0 \<le> rd x"
  using rd_pos [of x] by (cases "x = 0") auto

lemma rd_eq_0_iff [simp]: "rd x = 0 \<longleftrightarrow> x = 0"
  using rd_pos [of x] rd_neg [of x] by (cases "x = 0"; cases "0 < x") auto

lemma binexp_mono:
  assumes "0 < x" "x \<le> y"
  shows "binexp x \<le> binexp y"
proof -
  have "0 < y" using assms by simp
  from binexp_bounds [OF assms(1)] binexp_bounds [OF this]
  have "(2::real) powi binexp x < 2 powi (binexp y + 1)" using assms(2) by linarith
  then have "binexp x < binexp y + 1"
    using power_int_increasing [of "binexp y + 1" "binexp x" "2::real"]
    by (cases "binexp x < binexp y + 1") auto
  then show ?thesis by simp
qed

lemma rd_mono_pos:
  assumes "0 < x" "x \<le> y"
  shows "rd x \<le> rd y"
proof (cases "binexp x = binexp y")
  case True
  have y: "0 < y" using assms by simp
  let ?s = "(2::real) powi (binexp y - 52)"
  have pos: "0 < ?s" by simp
  have "x / ?s \<le> y / ?s" using assms(2) pos by (simp add: divide_right_mono)
  then have "round_even (x / ?s) \<le> round_even (y / ?s)" by (rule round_even_mono)
  then have "(of_int (round_even (x / ?s)) :: real) * ?s \<le> of_int (round_even (y / ?s)) * ?s"
    using pos by (intro mult_right_mono) simp_all
  then show ?thesis
    using rd_scaled [of x] rd_scaled [of y] assms(1) y True by simp
next
  case False
  with binexp_mono [OF assms] have "binexp x + 1 \<le> binexp y" by simp
  then have "(2::real) powi (binexp x + 1) \<le> 2 powi binexp y"
    by (intro power_int_increasing) simp_all
  moreover have "0 < y" using assms by simp
  ultimately show ?thesis
    using rd_bounds_pos(2) [OF assms(1)] rd_bounds_pos(1) [of y] by linarith
qed

lemma rd_mono:
  assumes "x \<le> y"
  shows "rd x \<le> rd y"
proof -
  consider "0 < x" | "x \<le> 0" "0 \<le> y" | "y < 0" using assms by linarith
  then show ?thesis
  proof cases
    case 1
    then show ?thesis by (rule rd_mono_pos [OF _ assms])
  next
    case 2
    have "rd x \<le> 0" using 2(1) rd_nonneg [of "- x"] by (simp add: rd_minus)
    moreover have "0 \<le> rd y" using 2(2) by (rule rd_nonneg)
    ultimately show ?thesis by linarith
  next
    case 3
    then have "rd (- y) \<le> rd (- x)" using assms by (intro rd_mono_pos) simp_all
    then show ?thesis by (simp add: rd_minus)
  qed
qed

lemma rd_grid:
  assumes "\<bar>n\<bar> \<le> 2 ^ 53"
  shows "rd (of_int n * 2 powi e) = of_int n * 2 powi e"
proof (cases "n = 0")
  case True
  then show ?thesis by simp
next
  case False
  let ?x = "of_int n * (2::real) powi e"
  have x: "?x \<noteq> 0" using False by simp
  let ?E = "binexp \<bar>?x\<bar> - 52"
  let ?j = "e - ?E"
  have sc: "?x / 2 powi ?E = of_int n * 2 powi ?j"
    by (simp add: power_int_diff)
  have "\<exists>m::int. ?x / 2 powi ?E = of_int m"
  proof (cases "0 \<le> ?j")
    case True
    then have "(2::real) powi ?j = of_int (2 ^ nat ?j)" by (simp add: power_int_def)
    then have "?x / 2 powi ?E = of_int (n * 2 ^ nat ?j)" unfolding sc by simp
    then show ?thesis by blast
  next
    case neg: False
    have lo: "2 ^ 52 \<le> \<bar>of_int n * (2::real) powi ?j\<bar>"
      using scaled_bounds(1) [OF x] unfolding sc .
    have an: "\<bar>of_int n :: real\<bar> \<le> 2 ^ 53"
      using assms by (metis of_int_abs of_int_le_iff of_int_numeral of_int_power)
    have pj: "0 < (2::real) powi ?j" by simp
    have lo': "2 ^ 52 \<le> \<bar>of_int n :: real\<bar> * 2 powi ?j"
      using lo pj by (simp add: abs_mult)
    also have "\<dots> \<le> 2 ^ 53 * 2 powi ?j"
      using an pj by (intro mult_right_mono) simp_all
    finally have "(2::real) powi (- 1) \<le> 2 powi ?j" by (simp add: power_int_minus)
    then have "- 1 \<le> ?j"
      using power_int_strict_increasing [of ?j "- 1" "2::real"] by (cases "- 1 \<le> ?j") auto
    with neg have j: "?j = - 1" by simp
    have half: "(2::real) powi ?j = 1 / 2" unfolding j by (simp add: power_int_minus)
    from lo' have "2 ^ 53 \<le> \<bar>of_int n :: real\<bar>" unfolding half by simp
    with an have "\<bar>of_int n :: real\<bar> = 2 ^ 53" by simp
    then have "of_int n = (2 ^ 53 :: real) \<or> of_int n = - (2 ^ 53 :: real)" by (simp add: abs_if split: if_splits)
    then have "of_int n * (2::real) powi ?j = of_int (2 ^ 52) \<or> of_int n * (2::real) powi ?j = of_int (- (2 ^ 52))"
      unfolding half by auto
    then show ?thesis unfolding sc by blast
  qed
  then obtain m :: int where m: "?x / 2 powi ?E = of_int m" by blast
  have "rd ?x = of_int (round_even (?x / 2 powi ?E)) * 2 powi ?E"
    by (rule rd_scaled [OF x])
  also have "\<dots> = ?x / 2 powi ?E * 2 powi ?E"
    unfolding m by (simp only: round_even_of_int)
  also have "\<dots> = ?x" by simp
  finally show ?thesis .
qed

lemma rd_of_int: "\<bar>n\<bar> \<le> 2 ^ 53 \<Longrightarrow> rd (of_int n) = of_int n"
  using rd_grid [of n 0] by simp

lemma rd_rd [simp]: "rd (rd x) = rd x"
proof (cases "x = 0")
  case True
  then show ?thesis by simp
next
  case False
  let ?s = "(2::real) powi (binexp \<bar>x\<bar> - 52)"
  let ?m = "round_even (x / ?s)"
  have "\<bar>x / ?s\<bar> < 2 ^ 53" by (rule scaled_bounds(2) [OF False])
  then have b: "- (2 ^ 53) \<le> x / ?s" "x / ?s \<le> 2 ^ 53"
    by linarith+
  have "round_even (of_int (- (2 ^ 53))) \<le> ?m" by (rule round_even_mono) (use b(1) in simp)
  moreover have "?m \<le> round_even (of_int (2 ^ 53))" by (rule round_even_mono) (use b(2) in simp)
  ultimately have "\<bar>?m\<bar> \<le> 2 ^ 53" by (simp only: round_even_of_int)
  from rd_grid [OF this] show ?thesis unfolding rd_scaled [OF False] .
qed

lemma is_double_rd [simp]: "is_double (rd x)"
  by (simp add: is_double_def)

lemma rd_le: "is_double a \<Longrightarrow> x \<le> a \<Longrightarrow> rd x \<le> a"
  using rd_mono [of x a] by (simp add: is_double_def)

lemma rd_ge: "is_double a \<Longrightarrow> a \<le> x \<Longrightarrow> a \<le> rd x"
  using rd_mono [of a x] by (simp add: is_double_def)

lemma is_double_of_int: "\<bar>n\<bar> \<le> 2 ^ 53 \<Longrightarrow> is_double (of_int n)"
  by (simp add: is_double_def rd_of_int)

lemma rd_numeral [simp]: "(numeral w :: int) \<le> 2 ^ 53 \<Longrightarrow> rd (numeral w) = numeral w"
  using rd_of_int [of "numeral w"] by simp

lemma rd_1 [simp]: "rd 1 = 1"
  using rd_of_int [of 1] by simp

lemma rd_minus_simp [simp]: "rd (- x) = - rd x"
  by (rule rd_minus)

lemma rd_dyadic: "\<bar>n\<bar> \<le> 2 ^ 53 \<Longrightarrow> rd (of_int n / 2 ^ k) = of_int n / 2 ^ k"
  using rd_grid [of n "- int k"] by (simp add: power_int_minus field_simps)

lemma rd_half [simp]: "rd (1 / 2) = 1 / 2"
  using rd_dyadic [of 1 1] by simp

lemma is_double_numeral [simp]: "(numeral w :: int) \<le> 2 ^ 53 \<Longrightarrow> is_double (numeral w)"
  by (simp add: is_double_def)

lemma is_double_0 [simp]: "is_double 0"
  by (simp add: is_double_def)

lemma is_double_1 [simp]: "is_double 1"
  by (simp add: is_double_def)

lemma is_double_minus [simp]: "is_double (- x) \<longleftrightarrow> is_double x"
  by (simp add: is_double_def)

lemma round_even_near: "\<bar>t\<bar> < 1 / 2 \<Longrightarrow> round_even (of_int n + t) = n"
proof (cases "0 \<le> t")
  case True
  assume "\<bar>t\<bar> < 1 / 2"
  with True have f: "\<lfloor>of_int n + t\<rfloor> = n"
    by (simp add: floor_eq_iff)
  have "round_even (of_int n + t) = \<lfloor>of_int n + t\<rfloor>"
    by (rule round_even_low) (use True \<open>\<bar>t\<bar> < 1 / 2\<close> f in simp)
  with f show ?thesis by simp
next
  case False
  assume "\<bar>t\<bar> < 1 / 2"
  with False have f: "\<lfloor>of_int n + t\<rfloor> = n - 1"
    by (simp add: floor_eq_iff)
  have "round_even (of_int n + t) = \<lfloor>of_int n + t\<rfloor> + 1"
    by (rule round_even_high) (use False \<open>\<bar>t\<bar> < 1 / 2\<close> f in simp)
  with f show ?thesis by simp
qed

lemma round_even_rne:
  assumes "0 < d"
  shows "round_even (of_int n / of_int d) = rne n d"
proof -
  have f: "\<lfloor>real_of_int n / real_of_int d\<rfloor> = n div d"
    by (simp add: floor_divide_of_int_eq)
  have "real_of_int n = real_of_int (n div d) * real_of_int d + real_of_int (n mod d)"
    by (metis div_mult_mod_eq of_int_add of_int_mult)
  then have fr: "real_of_int n / real_of_int d - real_of_int (n div d) = real_of_int (n mod d) / real_of_int d"
    using assms by (simp add: field_simps)
  have c1: "real_of_int (n mod d) / real_of_int d < 1 / 2 \<longleftrightarrow> 2 * (n mod d) < d"
    using assms by (simp add: field_simps) linarith
  have c2: "1 / 2 < real_of_int (n mod d) / real_of_int d \<longleftrightarrow> d < 2 * (n mod d)"
    using assms by (simp add: field_simps) linarith
  show ?thesis
    unfolding round_even_def rne_def Let_def f fr c1 c2 by simp
qed

lemma rd_int_correct: "rd (of_int n * 2 powi e) = of_int (rd_int n) * 2 powi e"
proof (cases "bitlen \<bar>n\<bar> - 53 \<le> 0")
  case True
  have "\<bar>n\<bar> \<le> 2 ^ 53"
  proof (cases "n = 0")
    case False
    then have "\<bar>n\<bar> < 2 ^ nat (bitlen \<bar>n\<bar>)"
      using bitlen_bounds [of "\<bar>n\<bar>"] by simp
    also have "\<dots> \<le> 2 ^ 53"
      using True by (intro power_increasing) simp_all
    finally show ?thesis by simp
  qed simp
  with True show ?thesis
    by (simp add: rd_int_def rd_grid)
next
  case False
  define j where "j = nat (bitlen \<bar>n\<bar> - 53)"
  from False have j: "int j = bitlen \<bar>n\<bar> - 53" "0 < j"
    by (simp_all add: j_def)
  from False have n0: "0 < \<bar>n\<bar>"
    by (cases "n = 0") (simp_all add: bitlen_def floorlog_def)
  from j have nb: "nat (bitlen \<bar>n\<bar>) = 53 + j" "nat (bitlen \<bar>n\<bar> - 1) = 52 + j"
    by linarith+
  from bitlen_bounds [OF n0] have b: "2 ^ (52 + j) \<le> \<bar>n\<bar>" "\<bar>n\<bar> < 2 ^ (53 + j)"
    unfolding nb by simp_all
  let ?k = "52 + int j + e"
  have lo: "(2::real) powi ?k \<le> \<bar>real_of_int n * 2 powi e\<bar>"
  proof -
    have "(2::real) ^ (52 + j) \<le> real_of_int \<bar>n\<bar>"
      using b(1) by (metis of_int_le_iff of_int_numeral of_int_power)
    then have "(2::real) ^ (52 + j) * 2 powi e \<le> real_of_int \<bar>n\<bar> * 2 powi e"
      by (simp add: mult_right_mono)
    moreover have "(2::real) powi ?k = 2 ^ (52 + j) * 2 powi e"
      by (simp add: power_int_add power_add)
    ultimately show ?thesis
      by (simp add: abs_mult)
  qed
  have hi: "\<bar>real_of_int n * 2 powi e\<bar> < (2::real) powi (?k + 1)"
  proof -
    have "real_of_int \<bar>n\<bar> < (2::real) ^ (53 + j)"
      using b(2) by (metis of_int_less_iff of_int_numeral of_int_power)
    then have "real_of_int \<bar>n\<bar> * 2 powi e < (2::real) ^ (53 + j) * 2 powi e"
      by (simp add: mult_strict_right_mono)
    moreover have "(2::real) powi (?k + 1) = 2 ^ (53 + j) * 2 powi e"
      by (simp add: power_int_add power_add)
    ultimately show ?thesis
      by (simp add: abs_mult)
  qed
  have sc: "real_of_int n * 2 powi e / 2 powi (?k - 52) = real_of_int n / real_of_int (2 ^ j)"
    by (simp add: power_int_add field_simps)
  have "rd (real_of_int n * 2 powi e) =
      of_int (round_even (real_of_int n * 2 powi e / 2 powi (?k - 52))) * 2 powi (?k - 52)"
    by (rule rd_eval [OF lo hi])
  also have "\<dots> = of_int (rne n (2 ^ j)) * 2 powi (?k - 52)"
    unfolding sc using round_even_rne [of "2 ^ j" n] by (simp del: of_int_power)
  also have "\<dots> = of_int (rne n (2 ^ j) * 2 ^ j) * 2 powi e"
    by (simp add: power_int_add)
  finally show ?thesis
    using False by (simp add: rd_int_def Let_def j_def)
qed

lemma rd_int_div: "rd (of_int n / 2 ^ q) = of_int (rd_int n) / 2 ^ q"
  using rd_int_correct [of n "- int q"] by (simp add: power_int_minus field_simps)

section \<open>Arithmetic of JavaScript numbers\<close>

lemma js_add_commute: "js_add a b = js_add b a"
  by (cases a; cases b) (simp_all add: add.commute)

lemma js_sub_Fin: "js_sub (Fin a) (Fin b) = Fin (rd (a - b))"
  by (simp add: js_sub_def)

lemma js_sub_swap: "js_sub b a = js_neg (js_sub a b)"
proof (cases a; cases b)
  fix x y
  assume "a = Fin x" "b = Fin y"
  moreover have "rd (y - x) = - rd (x - y)"
    using rd_minus [of "x - y"] by simp
  ultimately show ?thesis
    by (simp add: js_sub_def)
qed (simp_all add: js_sub_def)

lemma js_sub_NaN [simp]: "js_sub a NaN = NaN" "js_sub NaN a = NaN"
  by (cases a; simp add: js_sub_def)+

lemma js_add_NaN [simp]: "js_add a NaN = NaN"
  by (cases a) simp_all

lemma js_div_NaN [simp]: "js_div a NaN = NaN"
  by (cases a) simp_all

lemma js_mul_NaN [simp]: "js_mul a NaN = NaN"
  by (cases a) simp_all

section \<open>The error function\<close>

lemma gauss_term_abs: "\<bar>gauss_term x n\<bar> \<le> \<bar>x\<bar> * (inverse (fact n) * (x\<^sup>2) ^ n)"
proof -
  have e: "x ^ (2 * n + 1) = x * (x\<^sup>2) ^ n"
    by (simp add: power_mult)
  have "\<bar>gauss_term x n\<bar> = \<bar>x\<bar> * (x\<^sup>2) ^ n / (fact n * real (2 * n + 1))"
    unfolding gauss_term_def e by (simp add: abs_mult power_abs)
  also have "\<dots> \<le> \<bar>x\<bar> * (x\<^sup>2) ^ n / (fact n * 1)"
    by (intro divide_left_mono mult_left_mono) (auto simp: mult_nonneg_nonneg)
  finally show ?thesis by (simp add: field_simps)
qed

lemma summable_gauss_term: "summable (gauss_term x)"
proof (rule summable_comparison_test')
  show "summable (\<lambda>n. \<bar>x\<bar> * (inverse (fact n) * (x\<^sup>2) ^ n))"
    by (intro summable_mult summable_exp)
  show "norm (gauss_term x n) \<le> \<bar>x\<bar> * (inverse (fact n) * (x\<^sup>2) ^ n)" for n
    using gauss_term_abs [of x n] by simp
qed

lemma gauss_term_sums: "gauss_term x sums gauss_int x"
  unfolding gauss_int_def by (rule summable_sums [OF summable_gauss_term])

lemma gauss_int_minus: "gauss_int (- x) = - gauss_int x"
proof -
  have "gauss_term (- x) n = - gauss_term x n" for n
    by (simp add: gauss_term_def)
  then have "gauss_int (- x) = (\<Sum>n. - gauss_term x n)"
    by (simp add: gauss_int_def)
  also have "\<dots> = - gauss_int x"
    unfolding gauss_int_def by (rule suminf_minus [OF summable_gauss_term])
  finally show ?thesis .
qed

lemma gauss_int_0: "gauss_int 0 = 0"
  by (simp add: gauss_int_def gauss_term_def)

lemma odd_half: "odd k \<Longrightarrow> 2 * ((k - 1) div 2) + 1 = k" for k :: nat
  by presburger

lemma odd_half': "odd k \<Longrightarrow> (k - Suc 0) div 2 = k div 2" for k :: nat
  by presburger

lemma gauss_coeff_sums: "(\<lambda>k. gauss_coeff k * x ^ k) sums gauss_int x"
proof -
  have "(\<lambda>k. if even k then 0 else gauss_term x ((k - 1) div 2)) sums gauss_int x"
    by (rule sums_if' [OF gauss_term_sums])
  moreover have "(if even k then 0 else gauss_term x ((k - 1) div 2)) = gauss_coeff k * x ^ k" for k
    by (simp add: gauss_coeff_def gauss_term_def odd_half odd_half')
  ultimately show ?thesis by simp
qed

lemma gauss_diffs_sums: "(\<lambda>k. diffs gauss_coeff k * x ^ k) sums exp (- x\<^sup>2)"
proof -
  have "(\<lambda>k. if even k then (- x\<^sup>2) ^ (k div 2) /\<^sub>R fact (k div 2) else 0) sums (0 + exp (- x\<^sup>2))"
    by (rule sums_if [OF sums_zero exp_converges])
  moreover have "(if even k then (- x\<^sup>2) ^ (k div 2) /\<^sub>R fact (k div 2) else 0)
      = diffs gauss_coeff k * x ^ k" for k
  proof (cases "even k")
    case True
    then obtain m where k: "k = 2 * m" by (auto elim: evenE)
    have p: "(- x\<^sup>2) ^ m = (- 1) ^ m * x ^ (2 * m)"
      by (simp add: power_mult power_minus [of "x\<^sup>2"])
    have d: "diffs gauss_coeff (2 * m) = (- 1) ^ m / fact m"
      by (simp add: diffs_def gauss_coeff_def)
    show ?thesis
      unfolding k d using p by (simp add: divide_inverse mult_ac)
  next
    case False
    then show ?thesis by (simp add: diffs_def gauss_coeff_def)
  qed
  ultimately show ?thesis by simp
qed

lemma DERIV_gauss_int: "DERIV gauss_int x :> exp (- x\<^sup>2)"
proof -
  have "((\<lambda>x. \<Sum>k. gauss_coeff k * x ^ k) has_field_derivative (\<Sum>k. diffs gauss_coeff k * x ^ k)) (at x)"
    by (rule termdiffs_strong_converges_everywhere) (rule sums_summable [OF gauss_coeff_sums])
  moreover have "(\<lambda>x. \<Sum>k. gauss_coeff k * x ^ k) = gauss_int"
    by (rule ext) (rule sums_unique [OF gauss_coeff_sums, symmetric])
  moreover have "(\<Sum>k. diffs gauss_coeff k * x ^ k) = exp (- x\<^sup>2)"
    by (rule sums_unique [OF gauss_diffs_sums, symmetric])
  ultimately show ?thesis by simp
qed

lemma gauss_int_strict_mono: "a < b \<Longrightarrow> gauss_int a < gauss_int b"
  by (rule DERIV_pos_imp_increasing) (auto intro: DERIV_gauss_int)

lemma gauss_int_le_arctan: "0 \<le> x \<Longrightarrow> gauss_int x \<le> arctan x"
proof -
  assume x: "0 \<le> x"
  have "arctan 0 - gauss_int 0 \<le> arctan x - gauss_int x"
  proof (rule DERIV_nonneg_imp_nondecreasing [OF x])
    fix t :: real
    have "DERIV (\<lambda>t. arctan t - gauss_int t) t :> inverse (1 + t\<^sup>2) - exp (- t\<^sup>2)"
      by (intro DERIV_diff DERIV_arctan DERIV_gauss_int) 
    moreover have "exp (- t\<^sup>2) \<le> inverse (1 + t\<^sup>2)"
    proof -
      have "1 + t\<^sup>2 \<le> exp (t\<^sup>2)" by simp
      then have "inverse (exp (t\<^sup>2)) \<le> inverse (1 + t\<^sup>2)"
        by (intro le_imp_inverse_le) (auto simp: add_pos_nonneg)
      then show ?thesis by (simp add: exp_minus)
    qed
    ultimately show "\<exists>y. DERIV (\<lambda>t. arctan t - gauss_int t) t :> y \<and> 0 \<le> y"
      by (intro exI [of _ "inverse (1 + t\<^sup>2) - exp (- t\<^sup>2)"]) simp
  qed
  then show ?thesis by (simp add: gauss_int_0)
qed

lemma gauss_int_less_pi: "gauss_int x < pi / 2"
proof (cases "0 \<le> x")
  case True
  then show ?thesis
    using gauss_int_le_arctan [of x] arctan_ubound [of x] by simp
next
  case False
  then have "gauss_int x < gauss_int 0" by (intro gauss_int_strict_mono) simp
  then have "gauss_int x < 0" by (simp add: gauss_int_0)
  then show ?thesis using pi_gt_zero by linarith
qed

lemma bdd_above_gauss_int: "bdd_above (range gauss_int)"
proof (rule bdd_aboveI)
  fix y assume "y \<in> range gauss_int"
  then obtain x where "y = gauss_int x" by auto
  then show "y \<le> pi / 2" using gauss_int_less_pi [of x] by simp
qed

lemma gauss_int_less_total: "gauss_int x < gauss_total"
proof -
  have "gauss_int x < gauss_int (x + 1)" by (rule gauss_int_strict_mono) simp
  also have "\<dots> \<le> gauss_total"
    unfolding gauss_total_def by (rule cSUP_upper [OF _ bdd_above_gauss_int]) simp
  finally show ?thesis .
qed

lemma gauss_total_pos: "0 < gauss_total"
  using gauss_int_less_total [of 0] by (simp add: gauss_int_0)

lemma erf_minus: "erf (- x) = - erf x"
  by (simp add: erf_def gauss_int_minus)

lemma erf_0: "erf 0 = 0"
  by (simp add: erf_def gauss_int_0)

lemma erf_less_1: "erf x < 1"
  using gauss_int_less_total [of x] gauss_total_pos by (simp add: erf_def)

lemma erf_greater_m1: "- 1 < erf x"
  using erf_less_1 [of "- x"] by (simp add: erf_minus)
lemma gauss_int_mono: "a \<le> b \<Longrightarrow> gauss_int a \<le> gauss_int b"
  using gauss_int_strict_mono [of a b] by (cases "a = b") auto

lemma erf_tendsto_1: "(erf \<longlongrightarrow> 1) at_top"
proof (rule tendstoI)
  fix e :: real
  assume e: "0 < e"
  have "gauss_total - e * gauss_total < gauss_total"
    using e gauss_total_pos by simp
  then obtain x0 where x0: "gauss_total - e * gauss_total < gauss_int x0"
    unfolding gauss_total_def
    using less_cSUP_iff [OF _ bdd_above_gauss_int, of "(SUP x. gauss_int x) - e * (SUP x. gauss_int x)"]
    by auto
  have "dist (erf x) 1 < e" if "x0 \<le> x" for x
  proof -
    have "gauss_total - e * gauss_total < gauss_int x"
      using x0 gauss_int_mono [OF that] by linarith
    then have "1 - e < erf x"
      using gauss_total_pos by (simp add: erf_def field_simps)
    moreover have "erf x < 1" by (rule erf_less_1)
    ultimately show ?thesis by (simp add: dist_real_def)
  qed
  then show "eventually (\<lambda>x. dist (erf x) 1 < e) at_top"
    unfolding eventually_at_top_linorder by blast
qed

lemma DERIV_erf: "DERIV erf x :> exp (- x\<^sup>2) / gauss_total"
  unfolding erf_def [abs_def]
  by (rule DERIV_cdivide [OF DERIV_gauss_int])

section \<open>The standard normal distribution\<close>

lemma Phi_minus: "Phi (- z) = 1 - Phi z"
  by (simp add: Phi_def erf_minus field_simps)

lemma Phi_0: "Phi 0 = 1 / 2"
  by (simp add: Phi_def erf_0)

lemma Phi_bounds: "0 < Phi z \<and> Phi z < 1"
  using erf_less_1 [of "z / sqrt 2"] erf_greater_m1 [of "z / sqrt 2"]
  by (simp add: Phi_def)

lemma rd_sqrt2_pos: "0 < rd (sqrt 2)"
  by (rule rd_pos) simp

lemma rd_erf_bounds: "- 1 \<le> rd (erf x) \<and> rd (erf x) \<le> 1"
proof
  have "is_double (- 1)" by simp
  then show "- 1 \<le> rd (erf x)"
    by (rule rd_ge) (use erf_greater_m1 [of x] in simp)
  show "rd (erf x) \<le> 1"
    by (rule rd_le) (use erf_less_1 [of x] in simp_all)
qed

lemma Phi64_bounds: "0 \<le> Phi64 z \<and> Phi64 z \<le> 1"
proof -
  define e where "e = rd (erf (rd (rd (z - 0) / rd (sqrt (rd (rd (2 * 1) * 1))))))"
  have e: "- 1 \<le> e" "e \<le> 1"
    using rd_erf_bounds by (simp_all add: e_def)
  have s: "0 \<le> rd (1 + e)" "rd (1 + e) \<le> 2"
    using e by (auto intro!: rd_nonneg rd_le)
  have "0 \<le> rd (1 / 2 * rd (1 + e))" "rd (1 / 2 * rd (1 + e)) \<le> 1"
    using s by (auto intro!: rd_nonneg rd_le)
  then show ?thesis
    by (simp add: Phi64_def e_def)
qed

lemma js_Phi_simps:
  "js_Phi (Fin z) = Fin (Phi64 z)" "js_Phi PosInf = Fin 1" "js_Phi NegInf = Fin 0" "js_Phi NaN = NaN"
  using rd_sqrt2_pos
  by (simp_all add: js_Phi_def normal_cdf_def Phi64_def js_sub_def)

lemma allianceWinProbability_js_Phi:
  "allianceWinProbability mu1 sigma1 mu2 sigma2 mu3 sigma3 mu4 sigma4 =
     js_Phi (js_div (js_sub (js_add mu1 mu2) (js_add mu3 mu4))
       (js_sqrt (js_add (js_add (js_pow2 sigma1) (js_pow2 sigma2))
          (js_add (js_pow2 sigma3) (js_pow2 sigma4)))))"
  by (simp add: allianceWinProbability_def js_Phi_def)

lemma variance_nonneg: "0 \<le> rd (rd (rd (s1\<^sup>2) + rd (s2\<^sup>2)) + rd (rd (s3\<^sup>2) + rd (s4\<^sup>2)))"
  by (intro rd_nonneg add_nonneg_nonneg) simp_all

lemma sigmaD64_nonneg: "0 \<le> sigmaD64 s1 s2 s3 s4"
  unfolding sigmaD64_def by (intro rd_nonneg real_sqrt_ge_zero variance_nonneg)

lemma sigmaD64_eq_0: "sigmaD64 s1 s2 s3 s4 = 0 \<longleftrightarrow> s1 = 0 \<and> s2 = 0 \<and> s3 = 0 \<and> s4 = 0"
proof -
  have a: "rd (s1\<^sup>2) + rd (s2\<^sup>2) = 0 \<longleftrightarrow> s1 = 0 \<and> s2 = 0" for s1 s2 :: real
    using rd_nonneg [of "s1\<^sup>2"] rd_nonneg [of "s2\<^sup>2"]
    by (simp add: add_nonneg_eq_0_iff)
  have b: "rd (rd (s1\<^sup>2) + rd (s2\<^sup>2)) + rd (rd (s3\<^sup>2) + rd (s4\<^sup>2)) = 0
      \<longleftrightarrow> (s1 = 0 \<and> s2 = 0) \<and> (s3 = 0 \<and> s4 = 0)"
    using rd_nonneg [of "rd (s1\<^sup>2) + rd (s2\<^sup>2)"] rd_nonneg [of "rd (s3\<^sup>2) + rd (s4\<^sup>2)"]
      rd_nonneg [of "s1\<^sup>2"] rd_nonneg [of "s2\<^sup>2"] rd_nonneg [of "s3\<^sup>2"] rd_nonneg [of "s4\<^sup>2"]
    by (simp add: add_nonneg_eq_0_iff a)
  show ?thesis
    unfolding sigmaD64_def by (simp add: b)
qed

lemma allianceWinProbability_Fin:
  "allianceWinProbability (Fin m1) (Fin s1) (Fin m2) (Fin s2) (Fin m3) (Fin s3) (Fin m4) (Fin s4) =
     (if sigmaD64 s1 s2 s3 s4 = 0
      then (if muD64 m1 m2 m3 m4 = 0 then NaN
            else if 0 < muD64 m1 m2 m3 m4 then Fin 1 else Fin 0)
      else Fin (Phi64 (rd (muD64 m1 m2 m3 m4 / sigmaD64 s1 s2 s3 s4))))"
proof -
  have nn: "\<not> rd (rd (rd (s1\<^sup>2) + rd (s2\<^sup>2)) + rd (rd (s3\<^sup>2) + rd (s4\<^sup>2))) < 0"
    using variance_nonneg [of s1 s2 s3 s4] by simp
  have q: "js_div (js_sub (js_add (Fin m1) (Fin m2)) (js_add (Fin m3) (Fin m4)))
       (js_sqrt (js_add (js_add (js_pow2 (Fin s1)) (js_pow2 (Fin s2)))
          (js_add (js_pow2 (Fin s3)) (js_pow2 (Fin s4))))) =
     (if sigmaD64 s1 s2 s3 s4 = 0
      then (if muD64 m1 m2 m3 m4 = 0 then NaN else inf_of_sign (muD64 m1 m2 m3 m4))
      else Fin (rd (muD64 m1 m2 m3 m4 / sigmaD64 s1 s2 s3 s4)))"
    using nn by (simp add: js_sub_Fin muD64_def sigmaD64_def)
  show ?thesis
    unfolding allianceWinProbability_js_Phi q
    by (simp add: js_Phi_simps inf_of_sign_def)
qed

lemma normal_cdf_NaN: "normal_cdf NaN mean std = NaN"
  by (simp add: normal_cdf_def)

lemma allianceWinProbability_NaN:
  assumes "mu1 = NaN \<or> sigma1 = NaN \<or> mu2 = NaN \<or> sigma2 = NaN
         \<or> mu3 = NaN \<or> sigma3 = NaN \<or> mu4 = NaN \<or> sigma4 = NaN"
  shows "allianceWinProbability mu1 sigma1 mu2 sigma2 mu3 sigma3 mu4 sigma4 = NaN"
  using assms
  by (auto simp: allianceWinProbability_def normal_cdf_NaN)

lemma gauss_int_lower: "0 \<le> x \<Longrightarrow> x - x ^ 3 / 3 \<le> gauss_int x"
proof -
  assume x: "0 \<le> x"
  have "gauss_int 0 - (0 - 0 ^ 3 / 3) \<le> gauss_int x - (x - x ^ 3 / 3)"
  proof (rule DERIV_nonneg_imp_nondecreasing [OF x])
    fix t :: real
    have "DERIV (\<lambda>t. gauss_int t - (t - t ^ 3 / 3)) t :> exp (- t\<^sup>2) - (1 - 3 * t ^ 2 / 3)"
      by (auto intro!: derivative_eq_intros DERIV_gauss_int)
    moreover have "1 - t\<^sup>2 \<le> exp (- t\<^sup>2)"
      using exp_ge_add_one_self [of "- t\<^sup>2"] by simp
    ultimately show "\<exists>y. DERIV (\<lambda>t. gauss_int t - (t - t ^ 3 / 3)) t :> y \<and> 0 \<le> y"
      by (intro exI [of _ "exp (- t\<^sup>2) - (1 - 3 * t ^ 2 / 3)"]) simp
  qed
  then show ?thesis by (simp add: gauss_int_0)
qed

lemma gauss_total_lower: "2 / 3 < gauss_total"
  using gauss_int_lower [of 1] gauss_int_less_total [of 1] by simp

lemma abs_exp_bound: "\<bar>x\<bar> * exp (- x\<^sup>2) \<le> 1 / 2" for x :: real
proof -
  have "0 \<le> (\<bar>x\<bar> - 1)\<^sup>2"
    by (rule zero_le_power2)
  then have "2 * \<bar>x\<bar> \<le> 1 + x\<^sup>2"
    by (simp add: power2_diff)
  also have "\<dots> \<le> exp (x\<^sup>2)"
    by simp
  finally have "\<bar>x\<bar> \<le> exp (x\<^sup>2) / 2" by simp
  then have "\<bar>x\<bar> * exp (- x\<^sup>2) \<le> exp (x\<^sup>2) / 2 * exp (- x\<^sup>2)"
    by (intro mult_right_mono) simp_all
  also have "\<dots> = 1 / 2"
    by (simp add: exp_minus)
  finally show ?thesis .
qed

lemma abs_diff_mult:
  fixes a b u y c :: real
  assumes "a - b = (u - y) * c" "0 \<le> c"
  shows "\<bar>b - a\<bar> = \<bar>u - y\<bar> * c" "\<bar>a - b\<bar> = \<bar>y - u\<bar> * c"
proof -
  have "\<bar>a - b\<bar> = \<bar>u - y\<bar> * \<bar>c\<bar>"
    unfolding assms(1) by (rule abs_mult)
  with assms(2) have e: "\<bar>a - b\<bar> = \<bar>u - y\<bar> * c"
    by simp
  from e show "\<bar>b - a\<bar> = \<bar>u - y\<bar> * c"
    by (simp only: abs_minus_commute [of b a])
  from e show "\<bar>a - b\<bar> = \<bar>y - u\<bar> * c"
    by (simp only: abs_minus_commute [of y u])
qed

lemma erf_diff_bound:
  assumes "\<bar>u - y\<bar> \<le> k * \<bar>y\<bar>" "0 \<le> k" "k \<le> 1 / 2"
  shows "\<bar>erf u - erf y\<bar> \<le> 3 / 2 * k"
proof (cases "u = y")
  case True
  with assms show ?thesis by simp
next
  case False
  define c where "c z = exp (- z\<^sup>2) / gauss_total" for z
  have g: "0 \<le> c z" for z
    using gauss_total_pos by (simp add: c_def)
  have D: "DERIV erf x :> c x" for x
    unfolding c_def by (rule DERIV_erf)
  have ky: "k * \<bar>y\<bar> \<le> \<bar>y\<bar> / 2"
    using assms(3) mult_right_mono [of k "1 / 2" "\<bar>y\<bar>"] by simp
  have "\<exists>z. \<bar>y\<bar> \<le> 2 * \<bar>z\<bar> \<and> \<bar>erf u - erf y\<bar> = \<bar>u - y\<bar> * c z"
  proof (cases "u < y")
    case True
    from MVT2 [OF True, of erf c]
    obtain z where z: "u < z" "z < y" "erf y - erf u = (y - u) * c z"
      using D by blast
    have "\<bar>y\<bar> \<le> 2 * \<bar>z\<bar>"
      using z(1,2) assms(1) ky by linarith
    moreover have "\<bar>erf u - erf y\<bar> = \<bar>u - y\<bar> * c z"
      using abs_diff_mult(1) [OF z(3) g] by (simp only: abs_minus_commute [of u y])
    ultimately show ?thesis by blast
  next
    case False
    with \<open>u \<noteq> y\<close> have lt: "y < u" by simp
    from MVT2 [OF lt, of erf c]
    obtain z where z: "y < z" "z < u" "erf u - erf y = (u - y) * c z"
      using D by blast
    have "\<bar>y\<bar> \<le> 2 * \<bar>z\<bar>"
      using z(1,2) assms(1) ky by linarith
    moreover have "\<bar>erf u - erf y\<bar> = \<bar>u - y\<bar> * c z"
      using abs_diff_mult(2) [OF z(3) g] by (simp only: abs_minus_commute [of u y])
    ultimately show ?thesis by blast
  qed
  then obtain z where z: "\<bar>y\<bar> \<le> 2 * \<bar>z\<bar>" "\<bar>erf u - erf y\<bar> = \<bar>u - y\<bar> * c z"
    by blast
  have "\<bar>u - y\<bar> \<le> k * (2 * \<bar>z\<bar>)"
    using assms(1) z(1) mult_left_mono [of "\<bar>y\<bar>" "2 * \<bar>z\<bar>" k] assms(2) by linarith
  then have "\<bar>u - y\<bar> * c z \<le> k * (2 * \<bar>z\<bar>) * c z"
    by (rule mult_right_mono) (rule g)
  also have "\<dots> = 2 * k * (\<bar>z\<bar> * exp (- z\<^sup>2)) / gauss_total"
    by (simp add: c_def)
  also have "\<dots> \<le> 2 * k * (1 / 2) / gauss_total"
    using abs_exp_bound [of z] assms(2) gauss_total_pos
    by (intro divide_right_mono mult_left_mono) simp_all
  also have "\<dots> = k / gauss_total"
    by simp
  also have "\<dots> \<le> k / (2 / 3)"
    using gauss_total_lower assms(2) by (intro divide_left_mono) simp_all
  finally show ?thesis
    using z(2) by simp
qed

lemma rd_rel: "\<exists>e. rd x = x * (1 + e) \<and> \<bar>e\<bar> \<le> 1 / 2 ^ 53"
proof (cases "x = 0")
  case True
  then show ?thesis by (intro exI [of _ 0]) simp
next
  case False
  have "\<bar>(rd x - x) / x\<bar> \<le> 1 / 2 ^ 53"
    using rd_error [of x] False by (simp add: abs_divide field_simps)
  moreover have "rd x = x * (1 + (rd x - x) / x)"
    using False by (simp add: field_simps)
  ultimately show ?thesis by blast
qed

lemma rel_quotient:
  fixes x c e1 e2 e3 :: real
  assumes "c \<noteq> 0" "1 + e2 \<noteq> 0"
  shows "x * (1 + e1) / (c * (1 + e2)) * (1 + e3) - x / c =
     x / c * ((e1 + e3 + e1 * e3 - e2) / (1 + e2))"
proof -
  define A where "A = (1 + e1) * (1 + e3) / (1 + e2)"
  have l: "x * (1 + e1) / (c * (1 + e2)) * (1 + e3) = x / c * A"
    by (simp add: A_def)
  have m: "A - 1 = (e1 + e3 + e1 * e3 - e2) / (1 + e2)"
    using assms(2) by (simp add: A_def field_simps)
  have "x / c * A - x / c = x / c * (A - 1)"
    by (simp add: right_diff_distrib)
  then show ?thesis
    unfolding l m .
qed

lemma Phi64_arg:
  "\<bar>rd (rd (z - 0) / rd (sqrt (rd (rd (2 * 1) * 1)))) - z / sqrt 2\<bar> \<le> 4 / 2 ^ 53 * \<bar>z / sqrt 2\<bar>"
proof -
  define d :: real where "d = 1 / 2 ^ 53"
  have d: "0 < d" "d \<le> 1 / 8"
    by (simp_all add: d_def)
  obtain e1 where e1: "rd z = z * (1 + e1)" "\<bar>e1\<bar> \<le> d"
    using rd_rel [of z] unfolding d_def by blast
  obtain e2 where e2: "rd (sqrt 2) = sqrt 2 * (1 + e2)" "\<bar>e2\<bar> \<le> d"
    using rd_rel [of "sqrt 2"] unfolding d_def by blast
  obtain e3 where e3: "rd (rd z / rd (sqrt 2)) = rd z / rd (sqrt 2) * (1 + e3)" "\<bar>e3\<bar> \<le> d"
    using rd_rel [of "rd z / rd (sqrt 2)"] unfolding d_def by blast
  have den: "7 / 8 \<le> 1 + e2"
    using e2(2) d by linarith
  have "\<bar>e1 * e3\<bar> \<le> d * (1 / 8)"
    unfolding abs_mult using e1(2) e3(2) d by (intro mult_mono) simp_all
  then have num: "\<bar>e1 + e3 + e1 * e3 - e2\<bar> \<le> 7 / 2 * d"
    using e1(2) e2(2) e3(2) by linarith
  have "\<bar>(e1 + e3 + e1 * e3 - e2) / (1 + e2)\<bar> = \<bar>e1 + e3 + e1 * e3 - e2\<bar> / (1 + e2)"
    using den by (simp add: abs_divide)
  also have "\<dots> \<le> (7 / 2 * d) / (7 / 8)"
    using num den d by (intro frac_le) simp_all
  also have "\<dots> = 4 * d"
    by simp
  finally have q: "\<bar>(e1 + e3 + e1 * e3 - e2) / (1 + e2)\<bar> \<le> 4 * d" .
  have "rd (rd z / rd (sqrt 2)) - z / sqrt 2 =
      z / sqrt 2 * ((e1 + e3 + e1 * e3 - e2) / (1 + e2))"
    unfolding e3(1) unfolding e1(1) e2(1)
    by (rule rel_quotient) (use den in simp_all)
  then have "\<bar>rd (rd z / rd (sqrt 2)) - z / sqrt 2\<bar> =
      \<bar>z / sqrt 2\<bar> * \<bar>(e1 + e3 + e1 * e3 - e2) / (1 + e2)\<bar>"
    by (simp only: abs_mult)
  also have "\<dots> \<le> \<bar>z / sqrt 2\<bar> * (4 * d)"
    using q by (intro mult_left_mono) simp_all
  finally show ?thesis
    by (simp add: d_def mult.commute)
qed

lemma Phi64_accuracy: "\<bar>Phi64 z - Phi z\<bar> \<le> 1 / 2 ^ 50"
proof -
  define d :: real where "d = 1 / 2 ^ 53"
  have d0: "0 \<le> d"
    by (simp add: d_def)
  define u where "u = rd (rd (z - 0) / rd (sqrt (rd (rd (2 * 1) * 1))))"
  define e where "e = rd (erf u)"
  define s where "s = rd (1 + e)"
  have "\<bar>u - z / sqrt 2\<bar> \<le> 4 * d * \<bar>z / sqrt 2\<bar>"
    using Phi64_arg [of z] by (simp add: u_def d_def)
  then have "\<bar>erf u - erf (z / sqrt 2)\<bar> \<le> 3 / 2 * (4 * d)"
    by (rule erf_diff_bound) (simp_all add: d_def)
  then have a: "\<bar>erf u - erf (z / sqrt 2)\<bar> \<le> 6 * d"
    by simp
  have eu: "\<bar>erf u\<bar> \<le> 1"
    using erf_less_1 [of u] erf_greater_m1 [of u] by simp
  have "\<bar>e - erf u\<bar> \<le> \<bar>erf u\<bar> * d"
    using rd_error [of "erf u"] by (simp add: e_def d_def)
  also have "\<dots> \<le> 1 * d"
    using eu by (intro mult_right_mono) (simp_all add: d_def)
  finally have b: "\<bar>e - erf u\<bar> \<le> d"
    by simp
  have e1: "- 1 \<le> e" "e \<le> 1"
    using rd_erf_bounds [of u] by (simp_all add: e_def)
  have "\<bar>s - (1 + e)\<bar> \<le> \<bar>1 + e\<bar> * d"
    using rd_error [of "1 + e"] by (simp add: s_def d_def)
  also have "\<dots> \<le> 2 * d"
    using e1 by (intro mult_right_mono) (simp_all add: d_def)
  finally have c: "\<bar>s - (1 + e)\<bar> \<le> 2 * d" .
  have s2: "0 \<le> s" "s \<le> 2"
    unfolding s_def using e1 by (auto intro!: rd_nonneg rd_le)
  have "\<bar>rd (1 / 2 * s) - 1 / 2 * s\<bar> \<le> \<bar>1 / 2 * s\<bar> * d"
    using rd_error [of "1 / 2 * s"] by (simp add: d_def)
  also have "\<dots> \<le> 1 * d"
    using s2 by (intro mult_right_mono) (simp_all add: d_def)
  finally have p: "\<bar>rd (1 / 2 * s) - 1 / 2 * s\<bar> \<le> d"
    by simp
  have est: "\<bar>P - (1 + Y) / 2\<bar> \<le> 8 * d"
    if "\<bar>U - Y\<bar> \<le> 6 * d" "\<bar>E - U\<bar> \<le> d" "\<bar>S - (1 + E)\<bar> \<le> 2 * d" "\<bar>P - S / 2\<bar> \<le> d"
    for P Y U E S :: real
    using that d0 by argo
  from p have "\<bar>rd (1 / 2 * s) - s / 2\<bar> \<le> d"
    by simp
  from est [OF a b c this] have "\<bar>rd (1 / 2 * s) - (1 + erf (z / sqrt 2)) / 2\<bar> \<le> 8 * d" .
  then show ?thesis
    by (simp add: Phi64_def Phi_def u_def e_def s_def d_def)
qed

section \<open>The sampling loop\<close>

lemma loop_stop:
  "\<not> js_le x mx \<Longrightarrow> generateNormalData_loop x mx step mean std label data = Some data"
  by (subst generateNormalData_loop.simps) simp

lemma loop_step:
  "js_le x mx \<Longrightarrow> generateNormalData_loop x mx step mean std label data =
     generateNormalData_loop (js_add x step) mx step mean std label
       (data @ [\<lparr>point_x = js_round2 x, point_y = normal_pdf x mean std, point_label = label\<rparr>])"
  by (subst generateNormalData_loop.simps) simp

lemma loop_never_returns:
  assumes "generateNormalData_loop x mx step mean std label data = Some y"
    and "x0 \<le> m" "rd (x0 + s) = x0"
  shows "\<not> (x = Fin x0 \<and> mx = Fin m \<and> step = Fin s)"
proof (rule generateNormalData_loop.raw_induct
    [where P = "\<lambda>x mx step mean std label data y. \<not> (x = Fin x0 \<and> mx = Fin m \<and> step = Fin s)"
      and xa = "((((((x, mx), step), mean), std), label), data)" and y = y, unfolded prod.case])
  show "generateNormalData_loop x mx step mean std label data = Some y"
    by (rule assms(1))
next
  fix f :: "jsnum \<Rightarrow> jsnum \<Rightarrow> jsnum \<Rightarrow> jsnum \<Rightarrow> jsnum \<Rightarrow> string \<Rightarrow> curve_point list
     \<Rightarrow> curve_point list option"
  fix x mx step mean std label data r
  assume IH: "\<And>x mx step mean std label data y. f x mx step mean std label data = Some y \<Longrightarrow>
      \<not> (x = Fin x0 \<and> mx = Fin m \<and> step = Fin s)"
    and eq: "(if js_le x mx
      then f (js_add x step) mx step mean std label
            (data @ [\<lparr>point_x = js_round2 x, point_y = normal_pdf x mean std, point_label = label\<rparr>])
      else Some data) = Some r"
  show "\<not> (x = Fin x0 \<and> mx = Fin m \<and> step = Fin s)"
  proof
    assume "x = Fin x0 \<and> mx = Fin m \<and> step = Fin s"
    with eq assms(2,3) have "f (Fin x0) (Fin m) (Fin s) mean std label
        (data @ [\<lparr>point_x = js_round2 (Fin x0), point_y = normal_pdf (Fin x0) mean std, point_label = label\<rparr>]) = Some r"
      by simp
    from IH [OF this] show False by simp
  qed
qed

lemma loop_stuck:
  assumes "x0 \<le> m" "rd (x0 + s) = x0"
  shows "generateNormalData_loop (Fin x0) (Fin m) (Fin s) mean std label data = None"
proof (cases "generateNormalData_loop (Fin x0) (Fin m) (Fin s) mean std label data")
  case None
  then show ?thesis .
next
  case (Some y)
  from loop_never_returns [OF this assms] show ?thesis by simp
qed

lemma generateNormalData_Fin:
  "generateNormalData (Fin m) (Fin s) label =
     generateNormalData_loop (Fin (min64 m s)) (Fin (max64 m s)) (Fin (step64 m s)) (Fin m) (Fin s) label []"
  by (simp add: generateNormalData_def js_sub_Fin min64_def max64_def step64_def)

lemma generateNormalData_stuck:
  assumes "min64 m s \<le> max64 m s" "rd (min64 m s + step64 m s) = min64 m s"
  shows "generateNormalData (Fin m) (Fin s) label = None"
  unfolding generateNormalData_Fin by (rule loop_stuck [OF assms])

lemma generateNormalData_equal:
  assumes "min64 m s = max64 m s"
  shows "generateNormalData (Fin m) (Fin s) label = None"
proof (rule generateNormalData_stuck)
  show "min64 m s \<le> max64 m s"
    using assms by simp
  have "step64 m s = 0"
    by (simp add: step64_def assms)
  then show "rd (min64 m s + step64 m s) = min64 m s"
    by (simp add: min64_def)
qed

lemma generateNormalData_zero: "generateNormalData (Fin m) (Fin 0) label = None"
  by (rule generateNormalData_equal) (simp add: min64_def max64_def)

lemma generateNormalData_empty:
  assumes "max64 m s < min64 m s"
  shows "generateNormalData (Fin m) (Fin s) label = Some []"
  unfolding generateNormalData_Fin using assms by (simp add: loop_stop)

lemma generateNormalData_NaN_std: "generateNormalData mean NaN label = Some []"
  by (cases mean) (simp_all add: generateNormalData_def loop_stop)

lemma generateNormalData_NaN_mean: "generateNormalData NaN std label = Some []"
  by (simp add: generateNormalData_def loop_stop)

lemma generateNormalData_special:
  assumes "mean \<in> {NaN, NegInf, PosInf} \<or> std \<in> {NaN, NegInf, PosInf}"
  shows "\<exists>pts. generateNormalData mean std label = Some pts"
proof (cases std)
  case NaN
  then show ?thesis
    by (simp add: generateNormalData_NaN_std)
next
  case NegInf
  then show ?thesis
    by (cases mean) (simp_all add: generateNormalData_def loop_stop js_sub_def inf_of_sign_def)
next
  case PosInf
  then show ?thesis
    by (cases mean) (simp_all add: generateNormalData_def loop_stop loop_step js_sub_def inf_of_sign_def)
next
  case (Fin s)
  with assms show ?thesis
    by (cases mean) (auto simp: generateNormalData_def loop_stop loop_step js_sub_def)
qed

text \<open>
  When every addition of the step advances \<open>x\<close> by half the step at least, the loop ends.
\<close>

lemma loop_advance:
  assumes s: "0 < s"
    and adv: "\<And>y. x0 \<le> y \<Longrightarrow> y \<le> mx \<Longrightarrow> y + s / 2 \<le> rd (y + s)"
  shows "x0 \<le> x \<Longrightarrow> mx < x + real n * (s / 2) \<Longrightarrow>
    \<exists>pts. generateNormalData_loop (Fin x) (Fin mx) (Fin s) mean std label data = Some pts"
proof (induction n arbitrary: x data)
  case 0
  then show ?case by (simp add: loop_stop)
next
  case (Suc n)
  show ?case
  proof (cases "x \<le> mx")
    case False
    then show ?thesis by (simp add: loop_stop)
  next
    case True
    from adv [OF Suc.prems(1) True] have a: "x + s / 2 \<le> rd (x + s)" .
    with s Suc.prems(1) have 1: "x0 \<le> rd (x + s)"
      by linarith
    have "x + real (Suc n) * (s / 2) = x + s / 2 + real n * (s / 2)"
      by (simp add: algebra_simps)
    with Suc.prems(2) a have 2: "mx < rd (x + s) + real n * (s / 2)"
      by linarith
    from Suc.IH [OF 1 2] True show ?thesis
      by (simp add: loop_step)
  qed
qed

lemma rd_advance:
  assumes "0 < s" "\<bar>y\<bar> + s \<le> 2 ^ 52 * s"
  shows "y + s / 2 \<le> rd (y + s)"
proof -
  have "\<bar>rd (y + s) - (y + s)\<bar> \<le> \<bar>y + s\<bar> / 2 ^ 53"
    by (rule rd_error)
  also have "\<dots> \<le> (\<bar>y\<bar> + s) / 2 ^ 53"
    using assms(1) by (intro divide_right_mono) simp_all
  also have "\<dots> \<le> 2 ^ 52 * s / 2 ^ 53"
    using assms(2) by (intro divide_right_mono) simp_all
  also have "\<dots> = s / 2"
    by simp
  finally show ?thesis
    by linarith
qed

lemma generateNormalData_advance:
  assumes "0 < step64 m s"
    and "\<bar>min64 m s\<bar> + \<bar>max64 m s\<bar> + step64 m s \<le> 2 ^ 52 * step64 m s"
  shows "\<exists>pts. generateNormalData (Fin m) (Fin s) label = Some pts"
proof -
  obtain n :: nat where n: "(max64 m s - min64 m s) / (step64 m s / 2) < real n"
    using reals_Archimedean2 by blast
  with assms(1) have "max64 m s - min64 m s < real n * (step64 m s / 2)"
    by (simp add: pos_divide_less_eq)
  then have b: "max64 m s < min64 m s + real n * (step64 m s / 2)"
    by simp
  have adv: "y + step64 m s / 2 \<le> rd (y + step64 m s)" if "min64 m s \<le> y" "y \<le> max64 m s" for y
  proof (rule rd_advance [OF assms(1)])
    from that have "\<bar>y\<bar> \<le> \<bar>min64 m s\<bar> + \<bar>max64 m s\<bar>"
      by linarith
    with assms(2) show "\<bar>y\<bar> + step64 m s \<le> 2 ^ 52 * step64 m s"
      by linarith
  qed
  show ?thesis
    unfolding generateNormalData_Fin
    by (rule loop_advance [OF assms(1) adv order_refl b])
qed

lemma rd_absorb:
  assumes n: "2 ^ 52 < n" "n < 2 ^ 53" and t: "\<bar>t\<bar> < 2 powi (e - 1)"
  shows "rd (of_int n * 2 powi e + t) = of_int n * 2 powi e"
proof -
  define r where "r = t / 2 powi e"
  have r: "\<bar>r\<bar> < 1 / 2"
  proof -
    have "\<bar>r\<bar> = \<bar>t\<bar> / 2 powi e"
      by (simp add: r_def abs_divide)
    also have "\<dots> < 2 powi (e - 1) / 2 powi e"
      using t by (intro divide_strict_right_mono) simp_all
    also have "\<dots> = 1 / 2"
      by (simp add: power_int_diff)
    finally show ?thesis .
  qed
  have x: "of_int n * 2 powi e + t = (of_int n + r) * 2 powi e"
    by (simp add: r_def field_simps)
  have n': "4503599627370497 \<le> real_of_int n" "real_of_int n \<le> 9007199254740991"
  proof -
    from n(1) have "4503599627370497 \<le> n" by simp
    then have "real_of_int 4503599627370497 \<le> real_of_int n"
      by (simp only: of_int_le_iff)
    then show "4503599627370497 \<le> real_of_int n" by simp
    from n(2) have "n \<le> 9007199254740991" by simp
    then have "real_of_int n \<le> real_of_int 9007199254740991"
      by (simp only: of_int_le_iff)
    then show "real_of_int n \<le> 9007199254740991" by simp
  qed
  have b: "4503599627370496 \<le> real_of_int n + r" "real_of_int n + r < 9007199254740992"
    using n' r by linarith+
  have pos: "0 < real_of_int n + r"
    using b(1) by linarith
  have p52: "(2::real) ^ 52 = 4503599627370496" "(2::real) ^ 53 = 9007199254740992"
    by simp_all
  have lo: "2 powi (e + 52) \<le> \<bar>of_int n * 2 powi e + t\<bar>"
  proof -
    have "(2::real) ^ 52 * 2 powi e \<le> (of_int n + r) * 2 powi e"
      unfolding p52 using b(1) by (intro mult_right_mono) simp_all
    moreover have "(2::real) powi (e + 52) = 2 ^ 52 * 2 powi e"
      by (simp add: power_int_add)
    ultimately show ?thesis
      unfolding x using pos by (simp add: abs_mult)
  qed
  have hi: "\<bar>of_int n * 2 powi e + t\<bar> < 2 powi (e + 52 + 1)"
  proof -
    have "(of_int n + r) * 2 powi e < (2::real) ^ 53 * 2 powi e"
      unfolding p52 using b(2) by (intro mult_strict_right_mono) simp_all
    moreover have "(2::real) powi (e + 52 + 1) = 2 ^ 53 * 2 powi e"
      by (simp add: power_int_add)
    ultimately show ?thesis
      unfolding x using pos by (simp add: abs_mult)
  qed
  have "rd (of_int n * 2 powi e + t) =
      of_int (round_even ((of_int n * 2 powi e + t) / 2 powi (e + 52 - 52))) * 2 powi (e + 52 - 52)"
    by (rule rd_eval [OF lo hi])
  also have "(of_int n * 2 powi e + t) / 2 powi (e + 52 - 52) = of_int n + r"
    unfolding x by simp
  also have "round_even (of_int n + r) = n"
    by (rule round_even_near [OF r])
  finally show ?thesis
    by simp
qed

lemma rd_absorb_nat:
  assumes "2 ^ 52 < n" "n < 2 ^ 53" "\<bar>t\<bar> < 2 ^ e / 2"
  shows "rd (of_int n * 2 ^ e + t) = of_int n * 2 ^ e"
  using rd_absorb [of n t "int e"] assms by (simp add: power_int_diff)

lemma rd_absorb_div:
  assumes "2 ^ 52 < n" "n < 2 ^ 53" "\<bar>t\<bar> < 1 / (2 * 2 ^ e)"
  shows "rd (of_int n / 2 ^ e + t) = of_int n / 2 ^ e"
  using rd_absorb [of n t "- int e"] assms by (simp add: power_int_diff power_int_minus field_simps)

text \<open>Mean 100 and standard deviation \<open>2\<^sup>-\<^sup>7\<^sup>0\<close>: \<open>min\<close> and \<open>max\<close> are both 100.\<close>

lemma tiny_min_max: "min64 100 (1 / 2 ^ 70) = 100" "max64 100 (1 / 2 ^ 70) = 100"
proof -
  have t: "rd (3 * (1 / 2 ^ 70)) = 3 / 2 ^ 70"
    using rd_dyadic [of 3 70] by simp
  have "rd (of_int 7036874417766400 / 2 ^ 46 + (- (3 / 2 ^ 70))) = of_int 7036874417766400 / 2 ^ 46"
    by (rule rd_absorb_div) simp_all
  then show "min64 100 (1 / 2 ^ 70) = 100"
    unfolding min64_def t by simp
  have "rd (of_int 7036874417766400 / 2 ^ 46 + 3 / 2 ^ 70) = of_int 7036874417766400 / 2 ^ 46"
    by (rule rd_absorb_div) simp_all
  then show "max64 100 (1 / 2 ^ 70) = 100"
    unfolding max64_def t by simp
qed

lemma generateNormalData_tiny: "generateNormalData (Fin 100) (Fin (1 / 2 ^ 70)) label = None"
  by (rule generateNormalData_equal) (simp only: tiny_min_max)

lemma generateNormalData_tiny_neg: "generateNormalData (Fin 100) (Fin (- (1 / 2 ^ 70))) label = None"
proof (rule generateNormalData_equal)
  have "min64 100 (- (1 / 2 ^ 70)) = max64 100 (1 / 2 ^ 70)"
    by (simp add: min64_def max64_def)
  moreover have "max64 100 (- (1 / 2 ^ 70)) = min64 100 (1 / 2 ^ 70)"
    by (simp add: min64_def max64_def)
  ultimately show "min64 100 (- (1 / 2 ^ 70)) = max64 100 (- (1 / 2 ^ 70))"
    by (simp only: tiny_min_max)
qed

text \<open>
  Mean \<open>2 * 10\<^sup>1\<^sup>7\<close> and standard deviation 42: \<open>min\<close> is below \<open>max\<close>, and the step is
  lost when it is added to \<open>min\<close>.
\<close>

lemma large_min: "min64 200000000000000000 42 = 199999999999999872"
proof -
  have "rd (of_int 6249999999999996 * 2 ^ 5 + 2) = of_int 6249999999999996 * 2 ^ 5"
    by (rule rd_absorb_nat) simp_all
  then show ?thesis
    by (simp add: min64_def)
qed

lemma large_max: "max64 200000000000000000 42 = 200000000000000128"
proof -
  have "rd (of_int 6250000000000004 * 2 ^ 5 + (- 2)) = of_int 6250000000000004 * 2 ^ 5"
    by (rule rd_absorb_nat) simp_all
  then show ?thesis
    by (simp add: max64_def)
qed

lemma large_step: "0 < step64 200000000000000000 42" "step64 200000000000000000 42 < 16"
proof -
  have s: "step64 200000000000000000 42 = rd (256 / 50)"
    by (simp add: step64_def large_min large_max)
  show "0 < step64 200000000000000000 42"
    unfolding s by (rule rd_pos) simp
  have "rd (256 / 50) \<le> 6"
    by (rule rd_le) simp_all
  then show "step64 200000000000000000 42 < 16"
    unfolding s by simp
qed

lemma generateNormalData_large:
  "generateNormalData (Fin 200000000000000000) (Fin 42) label = None"
proof (rule generateNormalData_stuck)
  show "min64 200000000000000000 42 \<le> max64 200000000000000000 42"
    by (simp add: large_min large_max)
  have "rd (of_int 6249999999999996 * 2 ^ 5 + step64 200000000000000000 42)
      = of_int 6249999999999996 * 2 ^ 5"
    by (rule rd_absorb_nat) (use large_step in simp_all)
  then show "rd (min64 200000000000000000 42 + step64 200000000000000000 42)
      = min64 200000000000000000 42"
    by (simp add: large_min)
qed

text \<open>Mean 100 and standard deviation 20.\<close>

lemma usual_min_max: "min64 100 20 = 40" "max64 100 20 = 160"
  by (simp_all add: min64_def max64_def)

lemma usual_step: "2 \<le> step64 100 20" "step64 100 20 \<le> 3"
proof -
  have s: "step64 100 20 = rd (12 / 5)"
    by (simp add: step64_def usual_min_max)
  show "2 \<le> step64 100 20"
    unfolding s by (rule rd_ge) simp_all
  show "step64 100 20 \<le> 3"
    unfolding s by (rule rd_le) simp_all
qed

lemma generateNormalData_usual: "\<exists>pts. generateNormalData (Fin 100) (Fin 20) label = Some pts"
  by (rule generateNormalData_advance) (use usual_step in \<open>simp_all add: usual_min_max\<close>)

lemma round_even_numeral_div: "round_even (numeral a / numeral b) = rne (numeral a) (numeral b)"
  using round_even_rne [of "numeral b" "numeral a"] by simp

lemma loop_itrace:
  "itrace k m M a = Some as \<Longrightarrow>
   generateNormalData_loop (Fin (of_int a / 2 ^ q)) (Fin (of_int M / 2 ^ q)) (Fin (of_int m / 2 ^ q))
       mean std label data =
     Some (data @ map (\<lambda>b. curve_point_at mean std label (of_int b / 2 ^ q)) as)"
proof (induction k arbitrary: a as data)
  case 0
  then show ?case by simp
next
  case (Suc k)
  have le: "real_of_int a / 2 ^ q \<le> real_of_int M / 2 ^ q \<longleftrightarrow> a \<le> M"
    by (simp add: divide_le_cancel)
  show ?case
  proof (cases "a \<le> M")
    case False
    with Suc.prems have "as = []" by simp
    with False le show ?thesis by (simp add: loop_stop)
  next
    case True
    with Suc.prems obtain bs where bs: "itrace k m M (rd_int (a + m)) = Some bs" "as = a # bs"
      by auto
    have "rd (real_of_int a / 2 ^ q + real_of_int m / 2 ^ q) = real_of_int (rd_int (a + m)) / 2 ^ q"
      using rd_int_div [of "a + m" q] by (simp add: add_divide_distrib)
    then have nx: "js_add (Fin (of_int a / 2 ^ q)) (Fin (of_int m / 2 ^ q)) =
        Fin (of_int (rd_int (a + m)) / 2 ^ q)"
      by simp
    from True le have j: "js_le (Fin (of_int a / 2 ^ q)) (Fin (of_int M / 2 ^ q))"
      by simp
    show ?thesis
      unfolding loop_step [OF j] nx Suc.IH [OF bs(1)] bs(2)
      by (simp add: curve_point_at_def)
  qed
qed

lemma usual_step_value: "step64 100 20 = of_int 5404319552844595 / 2 ^ 51"
proof -
  have "rd (12 / 5) = of_int (round_even (12 / 5 / 2 powi (1 - 52))) * 2 powi (1 - 52)"
    by (rule rd_eval) simp_all
  also have "(12::real) / 5 / 2 powi (1 - 52) = 27021597764222976 / 5"
    by (simp add: power_int_minus)
  also have "round_even (27021597764222976 / 5) = 5404319552844595"
    unfolding round_even_numeral_div by (simp add: rne_def)
  finally have "rd (12 / 5) = of_int 5404319552844595 / 2 ^ 51"
    by (simp add: power_int_minus field_simps)
  then show ?thesis
    by (simp add: step64_def usual_min_max)
qed

lemma usual_trace_length:
  "map_option length (itrace 60 5404319552844595 (160 * 2 ^ 51) (40 * 2 ^ 51)) = Some 50"
  by code_simp

lemma usual_trace_hd:
  "map_option hd (itrace 60 5404319552844595 (160 * 2 ^ 51) (40 * 2 ^ 51)) = Some (40 * 2 ^ 51)"
  by code_simp

lemma usual_trace_last:
  "map_option last (itrace 60 5404319552844595 (160 * 2 ^ 51) (40 * 2 ^ 51)) = Some 354883650636795520"
  by code_simp

lemma js_round2_first: "js_round2 (Fin (of_int (40 * 2 ^ 51) / 2 ^ 51)) = Fin 40"
  by simp

lemma js_round2_last: "js_round2 (Fin (of_int 354883650636795520 / 2 ^ 51)) = Fin (rd (788 / 5))"
proof -
  have "\<lfloor>100 * \<bar>real_of_int 354883650636795520 / 2 ^ 51\<bar> + 1 / 2\<rfloor> = 15760"
    by (simp add: floor_eq_iff)
  then show ?thesis
    by simp
qed

lemma generateNormalData_usual_points:
  "\<exists>pts. generateNormalData (Fin 100) (Fin 20) label = Some pts \<and> length pts = 50
     \<and> point_x (hd pts) = Fin 40 \<and> point_x (last pts) = Fin (rd (788 / 5))"
proof -
  obtain as where as: "itrace 60 5404319552844595 (160 * 2 ^ 51) (40 * 2 ^ 51) = Some as"
    using usual_trace_length by (cases "itrace 60 5404319552844595 (160 * 2 ^ 51) (40 * 2 ^ 51)") simp_all
  with usual_trace_length usual_trace_hd usual_trace_last
  have l: "length as = 50" "hd as = 40 * 2 ^ 51" "last as = 354883650636795520"
    by simp_all
  then have ne: "as \<noteq> []"
    by auto
  let ?pts = "map (\<lambda>b. curve_point_at (Fin 100) (Fin 20) label (of_int b / 2 ^ 51)) as"
  have m: "(40::real) = of_int (40 * 2 ^ 51) / 2 ^ 51" "(160::real) = of_int (160 * 2 ^ 51) / 2 ^ 51"
    by simp_all
  have "generateNormalData (Fin 100) (Fin 20) label =
      generateNormalData_loop (Fin (of_int (40 * 2 ^ 51) / 2 ^ 51)) (Fin (of_int (160 * 2 ^ 51) / 2 ^ 51))
        (Fin (of_int 5404319552844595 / 2 ^ 51)) (Fin 100) (Fin 20) label []"
    unfolding generateNormalData_Fin usual_min_max usual_step_value by (simp only: m [symmetric])
  also have "\<dots> = Some ([] @ ?pts)"
    by (rule loop_itrace [OF as])
  finally have 1: "generateNormalData (Fin 100) (Fin 20) label = Some ?pts"
    by simp
  have 2: "length ?pts = 50"
    using l(1) by simp
  have 3: "point_x (hd ?pts) = Fin 40"
    using ne js_round2_first by (simp add: hd_map curve_point_at_def l(2) del: js_round2.simps)
  have 4: "point_x (last ?pts) = Fin (rd (788 / 5))"
    using ne js_round2_last by (simp add: last_map curve_point_at_def l(3) del: js_round2.simps)
  from 1 2 3 4 show ?thesis by blast
qed

lemma rd_788_5: "rd (788 / 5) < 160"
proof -
  have "rd (788 / 5) \<le> 158"
    by (rule rd_le) simp_all
  then show ?thesis by simp
qed

lemma min64_neg: "min64 m (- s) = max64 m s" "max64 m (- s) = min64 m s"
  by (simp_all add: min64_def max64_def)

lemma rd_error_numeral: "\<bar>rd x - x\<bar> \<le> \<bar>x\<bar> / 9007199254740992"
  using rd_error [of x] by simp

lemma rd_half_le: "0 \<le> x \<Longrightarrow> x / 2 \<le> rd x"
  using rd_error_numeral [of x] by argo

lemma spread:
  assumes s: "0 < s" and m: "\<bar>m\<bar> \<le> 2 ^ 40 * s"
  shows "rd (3 * s) \<le> max64 m s - min64 m s"
    and "\<bar>min64 m s\<bar> + \<bar>max64 m s\<bar> \<le> 1099511627780 * rd (3 * s)"
    and "2 * s \<le> rd (3 * s)"
proof -
  define t where "t = rd (3 * s)"
  have t: "2 * s \<le> t"
    unfolding t_def using rd_error_numeral [of "3 * s"] s by argo
  from m have "\<bar>m\<bar> \<le> 1099511627776 * s"
    by simp
  with t have mt: "\<bar>m\<bar> \<le> 549755813888 * t"
    by argo
  have t0: "0 < t"
    using t s by argo
  have e: "\<bar>rd x - x\<bar> \<le> t / 8192" if "\<bar>x\<bar> \<le> \<bar>m\<bar> + t" for x
    using rd_error_numeral [of x] that mt t0 by argo
  have "\<bar>m - t\<bar> \<le> \<bar>m\<bar> + t"
    using t0 by argo
  then have 1: "\<bar>rd (m - t) - (m - t)\<bar> \<le> t / 8192"
    by (rule e)
  have "\<bar>m + t\<bar> \<le> \<bar>m\<bar> + t"
    using t0 by argo
  then have 2: "\<bar>rd (m + t) - (m + t)\<bar> \<le> t / 8192"
    by (rule e)
  define lo where "lo = rd (m - t)"
  define hi where "hi = rd (m + t)"
  from 1 2 have b: "\<bar>lo - (m - t)\<bar> \<le> t / 8192" "\<bar>hi - (m + t)\<bar> \<le> t / 8192"
    by (simp_all add: lo_def hi_def)
  from b t0 have "t \<le> hi - lo"
    by argo
  then show "rd (3 * s) \<le> max64 m s - min64 m s"
    by (simp add: min64_def max64_def lo_def hi_def t_def)
  from b t0 mt have "\<bar>lo\<bar> + \<bar>hi\<bar> \<le> 1099511627780 * t"
    by argo
  then show "\<bar>min64 m s\<bar> + \<bar>max64 m s\<bar> \<le> 1099511627780 * rd (3 * s)"
    by (simp add: min64_def max64_def lo_def hi_def t_def)
  from t show "2 * s \<le> rd (3 * s)"
    by (simp add: t_def)
qed

lemma step64_lower:
  assumes s: "0 < s" and m: "\<bar>m\<bar> \<le> 2 ^ 40 * s"
  shows "rd (3 * s) / 200 \<le> step64 m s"
proof -
  define t where "t = rd (3 * s)"
  define D where "D = max64 m s - min64 m s"
  define r where "r = rd D"
  have t0: "0 < t"
    unfolding t_def using spread(3) [OF assms] s by argo
  have D: "t \<le> D"
    unfolding t_def D_def by (rule spread(1) [OF assms])
  have "D / 2 \<le> r"
    unfolding r_def by (rule rd_half_le) (use D t0 in argo)
  with D have r: "t / 2 \<le> r"
    by argo
  have "r / 50 / 2 \<le> rd (r / 50)"
    by (rule rd_half_le) (use r t0 in argo)
  with r have "t / 200 \<le> rd (r / 50)"
    by argo
  then show ?thesis
    by (simp add: step64_def t_def r_def D_def)
qed

lemma generateNormalData_pos:
  assumes s: "0 < s" and m: "\<bar>m\<bar> \<le> 2 ^ 40 * s"
  shows "\<exists>pts. generateNormalData (Fin m) (Fin s) label = Some pts"
proof (rule generateNormalData_advance)
  define t where "t = rd (3 * s)"
  define st where "st = step64 m s"
  define w where "w = \<bar>min64 m s\<bar> + \<bar>max64 m s\<bar>"
  have t0: "0 < t"
    unfolding t_def using spread(3) [OF assms] s by argo
  have l: "t / 200 \<le> st"
    unfolding t_def st_def by (rule step64_lower [OF assms])
  have w: "w \<le> 1099511627780 * t"
    unfolding t_def w_def by (rule spread(2) [OF assms])
  from t0 l have "0 < st"
    by argo
  then show "0 < step64 m s"
    by (simp add: st_def)
  from t0 l w have "w + st \<le> 4503599627370496 * st"
    by argo
  then show "\<bar>min64 m s\<bar> + \<bar>max64 m s\<bar> + step64 m s \<le> 2 ^ 52 * step64 m s"
    by (simp add: st_def w_def)
qed

lemma generateNormalData_neg:
  assumes s: "s < 0" and m: "\<bar>m\<bar> \<le> 2 ^ 40 * \<bar>s\<bar>"
  shows "generateNormalData (Fin m) (Fin s) label = Some []"
proof (rule generateNormalData_empty)
  from assms have a: "0 < - s" "\<bar>m\<bar> \<le> 2 ^ 40 * (- s)"
    by simp_all
  from spread(1) [OF a] spread(3) [OF a] a(1) have "min64 m (- s) < max64 m (- s)"
    by argo
  then show "max64 m s < min64 m s"
    using min64_neg [of m "- s"] by simp
qed

section \<open>The aggregation\<close>

lemma getMatches_step_None: "score_of team m = None \<Longrightarrow> getMatches_step team r m = r"
  by (simp add: getMatches_step_def)

lemma getMatches_step_Some:
  "score_of team m = Some s \<Longrightarrow> getMatches_step team r m =
     \<lparr>autoSpecimen = autoSpecimen r @ [Fin (autoSpecimenPoints s)],
      autoSample = autoSample r @ [Fin (autoSamplePoints s)],
      dcSpecimen = dcSpecimen r @ [Fin (dcSpecimenPoints s)],
      dcSample = dcSample r @ [Fin (dcSamplePoints s)]\<rparr>"
  by (simp add: getMatches_step_def)

lemma getMatches_foldl:
  "foldl (getMatches_step team) r ms =
     \<lparr>autoSpecimen = autoSpecimen r @ map (\<lambda>s. Fin (autoSpecimenPoints s)) (List.map_filter (score_of team) ms),
      autoSample = autoSample r @ map (\<lambda>s. Fin (autoSamplePoints s)) (List.map_filter (score_of team) ms),
      dcSpecimen = dcSpecimen r @ map (\<lambda>s. Fin (dcSpecimenPoints s)) (List.map_filter (score_of team) ms),
      dcSample = dcSample r @ map (\<lambda>s. Fin (dcSamplePoints s)) (List.map_filter (score_of team) ms)\<rparr>"
proof (induction ms arbitrary: r)
  case Nil
  then show ?case by (simp add: map_filter_simps)
next
  case (Cons m ms)
  show ?case
    by (cases "score_of team m")
      (simp_all add: Cons.IH getMatches_step_None getMatches_step_Some map_filter_simps)
qed

lemma getMatches_usable:
  "getMatches a event team =
     \<lparr>autoSpecimen = map (\<lambda>s. Fin (autoSpecimenPoints s)) (usable_scores a team event),
      autoSample = map (\<lambda>s. Fin (autoSamplePoints s)) (usable_scores a team event),
      dcSpecimen = map (\<lambda>s. Fin (dcSpecimenPoints s)) (usable_scores a team event),
      dcSample = map (\<lambda>s. Fin (dcSamplePoints s)) (usable_scores a team event)\<rparr>"
  by (simp add: getMatches_def getMatches_foldl usable_scores_def)

lemma addArrays_Fin:
  "addArrays (map (\<lambda>s. Fin (f s)) xs) (map (\<lambda>s. Fin (g s)) xs) =
     map (\<lambda>s. js_add (Fin (f s)) (Fin (g s))) xs"
  by (rule nth_equalityI) (simp_all add: addArrays_def nth_or0_def)

lemma addScalar_map: "addScalar (map h xs) c = map (\<lambda>s. js_add (h s) c) xs"
  by (simp add: addScalar_def)

lemma foldl_append_concat: "foldl (\<lambda>acc x. acc @ f x) acc xs = acc @ concat (map f xs)"
  by (induction xs arbitrary: acc) simp_all

lemma event_total:
  "addScalar
     (if tele' = ''s''
      then addArrays (if auto' = ''s'' then autoSample (getMatches a event t)
                      else autoSpecimen (getMatches a event t))
             (dcSample (getMatches a event t))
      else addArrays (if auto' = ''s'' then autoSample (getMatches a event t)
                      else autoSpecimen (getMatches a event t))
             (dcSpecimen (getMatches a event t)))
     (Fin e) =
   map (match_total (auto' = ''s'') (tele' = ''s'') e) (usable_scores a t event)"
  by (cases "auto' = ''s''"; cases "tele' = ''s''")
    (simp_all add: getMatches_usable addArrays_Fin addScalar_map match_total_def)

lemma getAllScores_aggregate:
  "getAllScores a t auto' tele' (Fin e) = aggregate a t (auto' = ''s'') (tele' = ''s'') e"
  unfolding getAllScores_def aggregate_def Let_def foldl_append_concat event_total
  by simp





lemma toLowerCase_Red: "toLowerCase ''Red'' = ''red''"
  by code_simp

lemma toLowerCase_Blue: "toLowerCase ''Blue'' = ''blue''"
  by code_simp

lemma example_usable:
  "usable_scores example_api 1 ev = [\<lparr>autoSpecimenPoints = 10, autoSamplePoints = 20,
                                   dcSpecimenPoints = 30, dcSamplePoints = 40\<rparr>]"
  by (simp add: usable_scores_def example_api_def map_filter_simps score_of_def
      toLowerCase_Red toLowerCase_Blue)

lemma example_events: "getEventCodes example_api team = [''USCALA'']"
  by (simp add: getEventCodes_def example_api_def)


lemma example_scores: "team_scores example_api example_team = [Fin 70]"
  by (simp add: team_scores_def example_team_def getAllScores_aggregate aggregate_def
      example_usable example_events match_total_def)

lemma steady_usable_1:
  "usable_scores steady_api 1 ev = [\<lparr>autoSpecimenPoints = 10, autoSamplePoints = 20,
                                  dcSpecimenPoints = 30, dcSamplePoints = 40\<rparr>]"
  by (simp add: usable_scores_def steady_api_def map_filter_simps score_of_def
      toLowerCase_Red toLowerCase_Blue)

lemma steady_usable_3:
  "usable_scores steady_api 3 ev =
     [\<lparr>autoSpecimenPoints = 1, autoSamplePoints = 2, dcSpecimenPoints = 3, dcSamplePoints = 4\<rparr>,
      \<lparr>autoSpecimenPoints = 1, autoSamplePoints = 2, dcSpecimenPoints = 3, dcSamplePoints = 4\<rparr>]"
  by (simp add: usable_scores_def steady_api_def map_filter_simps score_of_def
      toLowerCase_Red toLowerCase_Blue)

lemma steady_events: "getEventCodes steady_api team = [''USCALA'']"
  by (simp add: getEventCodes_def steady_api_def)

lemma steady_scores_1: "team_scores steady_api example_team = [Fin 70]"
  by (simp add: team_scores_def example_team_def getAllScores_aggregate aggregate_def
      steady_usable_1 steady_events match_total_def)

lemma steady_scores_3: "team_scores steady_api steady_team = [Fin 34, Fin 34]"
  by (simp add: team_scores_def steady_team_def getAllScores_aggregate aggregate_def
      steady_usable_3 steady_events match_total_def)

section \<open>The estimator on short series\<close>

lemma estimate_Nil: "estimate [] = (NaN, Fin 0)"
  by (simp add: estimate_def jstat_mean_def jstat_sum_def jstat_stdev_def jstat_variance_def
      jstat_sumsqerr_def)

lemma estimate_single_Fin: "is_double v \<Longrightarrow> estimate [Fin v] = (Fin v, NaN)"
  by (simp add: estimate_def jstat_mean_def jstat_sum_def jstat_stdev_def jstat_variance_def
      jstat_sumsqerr_def js_sub_Fin is_double_def)

lemma stdev_single: "js_double x \<Longrightarrow> jstat_stdev [x] True = NaN"
  by (cases x)
    (simp_all add: jstat_mean_def jstat_sum_def jstat_stdev_def jstat_variance_def
      jstat_sumsqerr_def js_sub_def is_double_def)

lemma estimate_short:
  assumes "length s < 2" "\<forall>x\<in>set s. js_double x"
  shows "fst (estimate s) = NaN \<or> snd (estimate s) = NaN"
proof (cases s)
  case Nil
  then show ?thesis by (simp add: estimate_Nil)
next
  case (Cons x xs)
  with assms have "s = [x]" "js_double x" by simp_all
  then show ?thesis by (simp add: estimate_def stdev_single)
qed

lemma match_total_double: "js_double (match_total b c e s)"
  by (simp add: match_total_def)

lemma team_scores_double: "\<forall>x\<in>set (team_scores a t). js_double x"
  by (auto simp: team_scores_def getAllScores_aggregate aggregate_def match_total_double)

lemma js_sqrt_NaN_sum: "x = NaN \<or> y = NaN \<Longrightarrow> js_sqrt (js_add (js_pow2 x) (js_pow2 y)) = NaN"
  by (cases x; cases y) auto

lemma alliance_curve_short:
  assumes "length (team_scores a t) < 2 \<or> length (team_scores a t') < 2"
  shows "alliance_curve a t t' label = Some []"
proof -
  from assms have "fst (estimate (team_scores a t)) = NaN \<or> snd (estimate (team_scores a t)) = NaN
      \<or> fst (estimate (team_scores a t')) = NaN \<or> snd (estimate (team_scores a t')) = NaN"
    using estimate_short [OF _ team_scores_double, of a t] estimate_short [OF _ team_scores_double, of a t']
    by blast
  then consider "js_add (fst (estimate (team_scores a t))) (fst (estimate (team_scores a t'))) = NaN"
    | "js_sqrt (js_add (js_pow2 (snd (estimate (team_scores a t))))
                  (js_pow2 (snd (estimate (team_scores a t'))))) = NaN"
    by (auto simp: js_sqrt_NaN_sum)
  then show ?thesis
    by cases (simp_all add: alliance_curve_def generateNormalData_NaN_mean generateNormalData_NaN_std)
qed

lemma calculate_try_curves:
  "calculate_try a (t0, t1, t2, t3) =
     (case alliance_curve a t0 t1 ''Red Alliance'' of
        None \<Rightarrow> None
      | Some redData \<Rightarrow>
          (case alliance_curve a t2 t3 ''Blue Alliance'' of
             None \<Rightarrow> None
           | Some blueData \<Rightarrow>
               Some \<lparr>error = None,
                     result = Some (allianceWinProbability
                       (fst (estimate (team_scores a t0))) (snd (estimate (team_scores a t0)))
                       (fst (estimate (team_scores a t1))) (snd (estimate (team_scores a t1)))
                       (fst (estimate (team_scores a t2))) (snd (estimate (team_scores a t2)))
                       (fst (estimate (team_scores a t3))) (snd (estimate (team_scores a t3)))),
                     chartData = redData @ blueData\<rparr>))"
  by (simp add: calculate_try_def alliance_curve_def Let_def split: option.splits)

lemma winProb_short:
  assumes "length (team_scores a t0) < 2 \<or> length (team_scores a t1) < 2
         \<or> length (team_scores a t2) < 2 \<or> length (team_scores a t3) < 2"
  shows "allianceWinProbability
      (fst (estimate (team_scores a t0))) (snd (estimate (team_scores a t0)))
      (fst (estimate (team_scores a t1))) (snd (estimate (team_scores a t1)))
      (fst (estimate (team_scores a t2))) (snd (estimate (team_scores a t2)))
      (fst (estimate (team_scores a t3))) (snd (estimate (team_scores a t3))) = NaN"
proof (rule allianceWinProbability_NaN)
  from assms show "fst (estimate (team_scores a t0)) = NaN \<or> snd (estimate (team_scores a t0)) = NaN
      \<or> fst (estimate (team_scores a t1)) = NaN \<or> snd (estimate (team_scores a t1)) = NaN
      \<or> fst (estimate (team_scores a t2)) = NaN \<or> snd (estimate (team_scores a t2)) = NaN
      \<or> fst (estimate (team_scores a t3)) = NaN \<or> snd (estimate (team_scores a t3)) = NaN"
    using estimate_short [OF _ team_scores_double, of a t0] estimate_short [OF _ team_scores_double, of a t1]
      estimate_short [OF _ team_scores_double, of a t2] estimate_short [OF _ team_scores_double, of a t3]
    by blast
qed

lemma calculate_try_red_short:
  assumes "length (team_scores a t0) < 2 \<or> length (team_scores a t1) < 2"
  shows "calculate_try a (t0, t1, t2, t3) =
     map_option (\<lambda>blueData. \<lparr>error = None, result = Some NaN, chartData = blueData\<rparr>)
       (alliance_curve a t2 t3 ''Blue Alliance'')"
proof -
  from assms have w: "length (team_scores a t0) < 2 \<or> length (team_scores a t1) < 2
         \<or> length (team_scores a t2) < 2 \<or> length (team_scores a t3) < 2"
    by blast
  show ?thesis
    unfolding calculate_try_curves winProb_short [OF w] alliance_curve_short [OF assms]
    by (simp split: option.splits)
qed

lemma calculate_try_blue_short:
  assumes "length (team_scores a t2) < 2 \<or> length (team_scores a t3) < 2"
  shows "calculate_try a (t0, t1, t2, t3) =
     map_option (\<lambda>redData. \<lparr>error = None, result = Some NaN, chartData = redData\<rparr>)
       (alliance_curve a t0 t1 ''Red Alliance'')"
proof -
  from assms have w: "length (team_scores a t0) < 2 \<or> length (team_scores a t1) < 2
         \<or> length (team_scores a t2) < 2 \<or> length (team_scores a t3) < 2"
    by blast
  show ?thesis
    unfolding calculate_try_curves winProb_short [OF w] alliance_curve_short [OF assms]
    by (simp split: option.splits)
qed

lemma sqrt_100: "sqrt 100 = 10"
  by (rule real_sqrt_unique) simp_all

lemma estimate_34_34: "estimate [Fin 34, Fin 34] = (Fin 34, Fin 0)"
  by (simp add: estimate_def jstat_mean_def jstat_sum_def jstat_stdev_def
      jstat_variance_def jstat_sumsqerr_def js_sub_def)

lemma example_calculate:
  "calculate_try example_api (example_team, example_team, example_team, example_team) =
     Some \<lparr>error = None, result = Some NaN, chartData = []\<rparr>"
  by (simp add: calculate_try_red_short alliance_curve_short example_scores)

lemma steady_curve: "alliance_curve steady_api steady_team steady_team ''Blue Alliance'' = None"
  by (simp add: alliance_curve_def steady_scores_3 estimate_34_34 generateNormalData_zero)

lemma steady_calculate:
  "calculate_try steady_api (example_team, example_team, steady_team, steady_team) = None"
  by (simp add: calculate_try_red_short steady_scores_1 steady_curve)

section \<open>Claims on the Score Aggregator\<close>



text \<open>
  C10: the selection compares each flag with the string \<open>"s"\<close>.  With any other auto flag
  the auto component is the specimen one, with any other tele flag the tele component
  is the specimen one; so it is for \<open>"S"\<close>, \<open>"sample"\<close> and \<open>"specimen"\<close>; the sample
  components are selected at \<open>"s"\<close>.
\<close>

theorem getAllScores_flag_s:
  "(auto' \<noteq> ''s'' \<longrightarrow> getAllScores a t auto' tele' (Fin e) = aggregate a t False (tele' = ''s'') e)
   \<and> (tele' \<noteq> ''s'' \<longrightarrow> getAllScores a t auto' tele' (Fin e) = aggregate a t (auto' = ''s'') False e)
   \<and> (\<forall>f\<in>{''S'', ''sample'', ''specimen''}. \<forall>g\<in>{''S'', ''sample'', ''specimen''}.
         getAllScores a t f g (Fin e) = aggregate a t False False e)
   \<and> getAllScores a t ''s'' ''s'' (Fin e) = aggregate a t True True e
   \<and> aggregate a t auto_sample tele_sample e =
       concat (map (\<lambda>event.
           map (\<lambda>s. js_add
                  (js_add (Fin (if auto_sample then autoSamplePoints s else autoSpecimenPoints s))
                     (Fin (if tele_sample then dcSamplePoints s else dcSpecimenPoints s)))
                  (Fin e))
             (usable_scores a t event))
         (getEventCodes a t))"
  by (simp add: getAllScores_aggregate) (simp add: aggregate_def match_total_def [abs_def])

theorem getAllScores_flag_s_witness:
  "getAllScores example_api 1 ''S'' ''s'' (Fin 5) = [Fin 55]
   \<and> getAllScores example_api 1 ''s'' ''specimen'' (Fin 5) = [Fin 55]
   \<and> getAllScores example_api 1 ''sample'' ''specimen'' (Fin 5) = [Fin 45]
   \<and> getAllScores example_api 1 ''s'' ''s'' (Fin 5) = [Fin 65]"
  using getAllScores_flag_s [of "''S''" example_api 1 "''s''" 5 True True]
    getAllScores_flag_s [of "''s''" example_api 1 "''specimen''" 5 True False]
    getAllScores_flag_s [of "''sample''" example_api 1 "''specimen''" 5 False True]
    getAllScores_flag_s [of "''sample''" example_api 1 "''specimen''" 5 False False]
  by (simp add: example_usable example_events)

section \<open>Claims on the Distribution Estimator\<close>

text \<open>
  C7: on the series \<open>[10, 20, 30]\<close> the Distribution Estimator yields the mean 20 and the
  sample standard deviation 10: the sum of the squared deviations, 200, is divided by
  \<open>n - 1 = 2\<close>, not by \<open>n = 3\<close>.
\<close>

theorem estimate_10_20_30:
  "estimate [Fin 10, Fin 20, Fin 30] = (Fin 20, Fin 10)
   \<and> jstat_sumsqerr [Fin 10, Fin 20, Fin 30] = Fin 200
   \<and> jstat_variance [Fin 10, Fin 20, Fin 30] True = Fin (200 / 2)"
  by (simp add: estimate_def jstat_mean_def jstat_sum_def jstat_stdev_def
      jstat_variance_def jstat_sumsqerr_def js_sub_def sqrt_100)

text \<open>
  C2 (amended): on a series of fewer than two JavaScript numbers the Distribution
  Estimator does not fail.  It returns the mean NaN and the standard deviation \<open>0\<close> on
  the empty series and the mean \<open>v\<close> and the standard deviation NaN on \<open>[v]\<close>; one of the
  two is NaN in either case.  A calculation with such a team sets no error.  The curve
  of that team's alliance is empty, and the calculation ends exactly when the Curve
  Generator returns for the other alliance: it then reports NaN as the win probability
  and the other alliance's curve.  When the Curve Generator never returns for the other
  alliance, the calculation never ends.
\<close>

theorem estimate_short_series:
  assumes "length s < 2" and "\<forall>x\<in>set s. js_double x"
  shows "(s = [] \<longrightarrow> estimate s = (NaN, Fin 0))
     \<and> (\<forall>v. s = [Fin v] \<longrightarrow> estimate s = (Fin v, NaN))
     \<and> (fst (estimate s) = NaN \<or> snd (estimate s) = NaN)
     \<and> (team_scores a t0 = s \<or> team_scores a t1 = s \<longrightarrow>
          alliance_curve a t0 t1 ''Red Alliance'' = Some []
          \<and> calculate_try a (t0, t1, t2, t3) =
              map_option (\<lambda>blueData. \<lparr>error = None, result = Some NaN, chartData = blueData\<rparr>)
                (alliance_curve a t2 t3 ''Blue Alliance''))
     \<and> (team_scores a t2 = s \<or> team_scores a t3 = s \<longrightarrow>
          alliance_curve a t2 t3 ''Blue Alliance'' = Some []
          \<and> calculate_try a (t0, t1, t2, t3) =
              map_option (\<lambda>redData. \<lparr>error = None, result = Some NaN, chartData = redData\<rparr>)
                (alliance_curve a t0 t1 ''Red Alliance''))"
proof (intro conjI allI impI)
  show "estimate s = (NaN, Fin 0)" if "s = []"
    using that by (simp add: estimate_Nil)
  show "estimate s = (Fin v, NaN)" if "s = [Fin v]" for v
    using that assms(2) by (simp add: estimate_single_Fin)
  show "fst (estimate s) = NaN \<or> snd (estimate s) = NaN"
    by (rule estimate_short [OF assms])
next
  assume "team_scores a t0 = s \<or> team_scores a t1 = s"
  with assms(1) have r: "length (team_scores a t0) < 2 \<or> length (team_scores a t1) < 2"
    by auto
  show "alliance_curve a t0 t1 ''Red Alliance'' = Some []"
    by (rule alliance_curve_short [OF r])
  show "calculate_try a (t0, t1, t2, t3) =
      map_option (\<lambda>blueData. \<lparr>error = None, result = Some NaN, chartData = blueData\<rparr>)
        (alliance_curve a t2 t3 ''Blue Alliance'')"
    by (rule calculate_try_red_short [OF r])
next
  assume "team_scores a t2 = s \<or> team_scores a t3 = s"
  with assms(1) have b: "length (team_scores a t2) < 2 \<or> length (team_scores a t3) < 2"
    by auto
  show "alliance_curve a t2 t3 ''Blue Alliance'' = Some []"
    by (rule alliance_curve_short [OF b])
  show "calculate_try a (t0, t1, t2, t3) =
      map_option (\<lambda>redData. \<lparr>error = None, result = Some NaN, chartData = redData\<rparr>)
        (alliance_curve a t0 t1 ''Red Alliance'')"
    by (rule calculate_try_blue_short [OF b])
qed

theorem estimate_short_series_witness:
  "estimate [Fin 70] = (Fin 70, NaN)
   \<and> calculate_try example_api (example_team, example_team, example_team, example_team) =
       Some \<lparr>error = None, result = Some NaN, chartData = []\<rparr>
   \<and> calculate_try steady_api (example_team, example_team, steady_team, steady_team) = None"
  using estimate_short_series [of "[Fin 70]" example_api example_team example_team example_team
      example_team]
    estimate_short_series [of "[Fin 70]" steady_api example_team example_team steady_team
      steady_team]
  by (simp add: example_scores steady_scores_1 steady_curve)

text \<open>
  The claim as stated fails on the empty series and on a series of one score: the
  estimator returns a pair, and the calculation for four teams with one usable match
  each ends with no error and the probability NaN.
\<close>

theorem estimate_no_error_counterexample:
  "estimate [] = (NaN, Fin 0) \<and> estimate [Fin 70] = (Fin 70, NaN)
   \<and> team_scores example_api example_team = [Fin 70]
   \<and> calculate_try example_api (example_team, example_team, example_team, example_team) =
       Some \<lparr>error = None, result = Some NaN, chartData = []\<rparr>"
  by (simp add: estimate_Nil estimate_single_Fin example_scores example_calculate)

section \<open>Claims on the Alliance Combiner and the Win Probability Calculator\<close>

text \<open>
  C1: for all eight parameters the value \<open>allianceWinProbability\<close> returns is
  \<open>\<Phi>(muD / sigmaD)\<close>, with \<open>muD = (mu1 + mu2) - (mu3 + mu4)\<close> and
  \<open>sigmaD = sqrt((sigma1\<^sup>2 + sigma2\<^sup>2) + (sigma3\<^sup>2 + sigma4\<^sup>2))\<close>, the operations being those
  of JavaScript numbers and \<open>\<Phi>\<close> the standard normal cumulative distribution function
  \<open>jStat.normal.cdf(\<cdot>, 0, 1)\<close>.  On finite parameters with \<open>sigmaD > 0\<close> the value is a
  number within \<open>2\<^sup>-\<^sup>5\<^sup>0\<close> of the real number \<open>Phi z\<close>, \<open>z\<close> being the quotient \<open>muD / sigmaD\<close>
  as computed, when the error function is rounded correctly as the model has it.
\<close>

theorem allianceWinProbability_is_Phi:
  "allianceWinProbability mu1 sigma1 mu2 sigma2 mu3 sigma3 mu4 sigma4 =
     js_Phi (js_div (js_sub (js_add mu1 mu2) (js_add mu3 mu4))
       (js_sqrt (js_add (js_add (js_pow2 sigma1) (js_pow2 sigma2))
          (js_add (js_pow2 sigma3) (js_pow2 sigma4)))))
   \<and> js_sub (js_add (Fin m1) (Fin m2)) (js_add (Fin m3) (Fin m4)) = Fin (muD64 m1 m2 m3 m4)
   \<and> js_sqrt (js_add (js_add (js_pow2 (Fin s1)) (js_pow2 (Fin s2)))
          (js_add (js_pow2 (Fin s3)) (js_pow2 (Fin s4)))) = Fin (sigmaD64 s1 s2 s3 s4)
   \<and> (0 < sigmaD64 s1 s2 s3 s4 \<longrightarrow>
        (\<exists>p. allianceWinProbability (Fin m1) (Fin s1) (Fin m2) (Fin s2) (Fin m3) (Fin s3) (Fin m4) (Fin s4) = Fin p
           \<and> \<bar>p - Phi (rd (muD64 m1 m2 m3 m4 / sigmaD64 s1 s2 s3 s4))\<bar> \<le> 1 / 2 ^ 50))"
proof (intro conjI impI)
  show "allianceWinProbability mu1 sigma1 mu2 sigma2 mu3 sigma3 mu4 sigma4 =
     js_Phi (js_div (js_sub (js_add mu1 mu2) (js_add mu3 mu4))
       (js_sqrt (js_add (js_add (js_pow2 sigma1) (js_pow2 sigma2))
          (js_add (js_pow2 sigma3) (js_pow2 sigma4)))))"
    by (rule allianceWinProbability_js_Phi)
  show "js_sub (js_add (Fin m1) (Fin m2)) (js_add (Fin m3) (Fin m4)) = Fin (muD64 m1 m2 m3 m4)"
    by (simp add: js_sub_Fin muD64_def)
  show "js_sqrt (js_add (js_add (js_pow2 (Fin s1)) (js_pow2 (Fin s2)))
          (js_add (js_pow2 (Fin s3)) (js_pow2 (Fin s4)))) = Fin (sigmaD64 s1 s2 s3 s4)"
    using variance_nonneg [of s1 s2 s3 s4] by (simp add: sigmaD64_def)
  assume "0 < sigmaD64 s1 s2 s3 s4"
  then show "\<exists>p. allianceWinProbability (Fin m1) (Fin s1) (Fin m2) (Fin s2) (Fin m3) (Fin s3) (Fin m4) (Fin s4) = Fin p
      \<and> \<bar>p - Phi (rd (muD64 m1 m2 m3 m4 / sigmaD64 s1 s2 s3 s4))\<bar> \<le> 1 / 2 ^ 50"
    using Phi64_accuracy [of "rd (muD64 m1 m2 m3 m4 / sigmaD64 s1 s2 s3 s4)"]
    by (simp add: allianceWinProbability_Fin)
qed

theorem allianceWinProbability_is_Phi_witness:
  "\<exists>p. allianceWinProbability (Fin 60) (Fin 3) (Fin 40) (Fin 4) (Fin 70) (Fin 0) (Fin 30) (Fin 12) = Fin p
     \<and> \<bar>p - 1 / 2\<bar> \<le> 1 / 2 ^ 50"
proof -
  have s: "0 < sigmaD64 3 4 0 12"
    using sigmaD64_nonneg [of 3 4 0 12] sigmaD64_eq_0 [of 3 4 0 12] by simp
  have m: "muD64 60 40 70 30 = 0"
    by (simp add: muD64_def)
  from allianceWinProbability_is_Phi [of "Fin 0" "Fin 0" "Fin 0" "Fin 0" "Fin 0" "Fin 0" "Fin 0" "Fin 0"
      60 40 70 30 3 4 0 12] s
  show ?thesis
    by (simp add: m Phi_0)
qed

text \<open>
  C3 (amended): on finite parameters, unless \<open>sigmaD = 0\<close> and \<open>muD = 0\<close> as computed, the
  win probability is a real number in the closed interval \<open>[0, 1]\<close>, hence not NaN; when
  \<open>sigmaD = 0\<close> it is \<open>1\<close> for \<open>muD > 0\<close> and \<open>0\<close> for \<open>muD < 0\<close>.
\<close>

theorem allianceWinProbability_range:
  assumes "\<not> (sigmaD64 s1 s2 s3 s4 = 0 \<and> muD64 m1 m2 m3 m4 = 0)"
  shows "\<exists>p. allianceWinProbability (Fin m1) (Fin s1) (Fin m2) (Fin s2) (Fin m3) (Fin s3) (Fin m4) (Fin s4) = Fin p
     \<and> 0 \<le> p \<and> p \<le> 1
     \<and> (sigmaD64 s1 s2 s3 s4 = 0 \<longrightarrow> p = (if 0 < muD64 m1 m2 m3 m4 then 1 else 0))"
  using assms Phi64_bounds [of "rd (muD64 m1 m2 m3 m4 / sigmaD64 s1 s2 s3 s4)"]
  unfolding allianceWinProbability_Fin by auto

theorem allianceWinProbability_range_witness:
  "\<exists>p. allianceWinProbability (Fin 60) (Fin 3) (Fin 40) (Fin 4) (Fin 50) (Fin 0) (Fin 45) (Fin 12) = Fin p
     \<and> 0 \<le> p \<and> p \<le> 1"
  using allianceWinProbability_range [of 3 4 0 12 60 40 50 45] sigmaD64_eq_0 [of 3 4 0 12]
  by auto

text \<open>
  The claim as stated fails where four teams have each scored the same in all their
  matches, here 50 with standard deviation 0: \<open>muD / sigmaD\<close> is \<open>0 / 0\<close>.
\<close>

theorem allianceWinProbability_NaN_counterexample:
  "allianceWinProbability (Fin 50) (Fin 0) (Fin 50) (Fin 0) (Fin 50) (Fin 0) (Fin 50) (Fin 0) = NaN"
  by (simp add: allianceWinProbability_Fin sigmaD64_eq_0 muD64_def)

text \<open>
  C6: combining two team distributions is commutative: the combined mean is
  \<open>mean1 + mean2\<close> and the combined variance \<open>stddev1\<^sup>2 + stddev2\<^sup>2\<close>, whichever team comes
  first.  \<open>allianceWinProbability\<close> combines its first two and its last two teams so, and
  returns the same for either order of the teammates.
\<close>

theorem combine_commute:
  "combine A B = combine B A
   \<and> combine (mu1, sigma1) (mu2, sigma2) = (js_add mu1 mu2, js_add (js_pow2 sigma1) (js_pow2 sigma2))
   \<and> allianceWinProbability mu1 sigma1 mu2 sigma2 mu3 sigma3 mu4 sigma4 =
       (let a = combine (mu1, sigma1) (mu2, sigma2); b = combine (mu3, sigma3) (mu4, sigma4)
        in normal_cdf (js_div (js_sub (fst a) (fst b)) (js_sqrt (js_add (snd a) (snd b)))) (Fin 0) (Fin 1))
   \<and> allianceWinProbability mu1 sigma1 mu2 sigma2 mu3 sigma3 mu4 sigma4 =
       allianceWinProbability mu2 sigma2 mu1 sigma1 mu4 sigma4 mu3 sigma3"
  by (simp add: combine_def allianceWinProbability_def js_add_commute)

section \<open>Claims on the Curve Generator\<close>

text \<open>
  C9 (amended): the loop of the Curve Generator ends when the mean or the stddev is not
  finite, and on a finite mean \<open>m\<close> and a finite stddev \<open>s\<close> when \<open>s > 0\<close> and
  \<open>|m| \<le> 2\<^sup>4\<^sup>0 * s\<close>; when \<open>s < 0\<close> and \<open>|m| \<le> 2\<^sup>4\<^sup>0 * |s|\<close> it returns the empty sequence.  For
  the stddev \<open>0\<close> the step is \<open>0\<close>, \<open>x <= max\<close> stays true and the function never returns.
  Nor does it return whenever \<open>min\<close> and \<open>max\<close> are computed equal, or \<open>min\<close> is not above
  \<open>max\<close> and adding the step to \<open>min\<close> gives \<open>min\<close> again.  In general it returns when the
  step is positive and \<open>|min| + |max| + step \<le> 2\<^sup>5\<^sup>2 * step\<close>, and it returns the empty
  sequence when \<open>max < min\<close>.
\<close>

theorem generateNormalData_termination:
  "((mean \<in> {NaN, NegInf, PosInf} \<or> std \<in> {NaN, NegInf, PosInf})
      \<longrightarrow> (\<exists>pts. generateNormalData mean std label = Some pts))
   \<and> (0 < s \<and> \<bar>m\<bar> \<le> 2 ^ 40 * s \<longrightarrow> (\<exists>pts. generateNormalData (Fin m) (Fin s) label = Some pts))
   \<and> (s < 0 \<and> \<bar>m\<bar> \<le> 2 ^ 40 * \<bar>s\<bar> \<longrightarrow> generateNormalData (Fin m) (Fin s) label = Some [])
   \<and> generateNormalData (Fin m) (Fin 0) label = None
   \<and> js_sub (Fin m) (js_mul (Fin 3) (Fin s)) = Fin (min64 m s)
   \<and> js_add (Fin m) (js_mul (Fin 3) (Fin s)) = Fin (max64 m s)
   \<and> js_div (js_sub (Fin (max64 m s)) (Fin (min64 m s))) (Fin 50) = Fin (step64 m s)
   \<and> (min64 m s = max64 m s \<longrightarrow> generateNormalData (Fin m) (Fin s) label = None)
   \<and> (min64 m s \<le> max64 m s \<and> js_add (Fin (min64 m s)) (Fin (step64 m s)) = Fin (min64 m s)
        \<longrightarrow> generateNormalData (Fin m) (Fin s) label = None)
   \<and> (0 < step64 m s \<and> \<bar>min64 m s\<bar> + \<bar>max64 m s\<bar> + step64 m s \<le> 2 ^ 52 * step64 m s
        \<longrightarrow> (\<exists>pts. generateNormalData (Fin m) (Fin s) label = Some pts))
   \<and> (max64 m s < min64 m s \<longrightarrow> generateNormalData (Fin m) (Fin s) label = Some [])"
proof -
  have pos: "0 < s \<and> \<bar>m\<bar> \<le> 2 ^ 40 * s \<longrightarrow> (\<exists>pts. generateNormalData (Fin m) (Fin s) label = Some pts)"
    using generateNormalData_pos [of s m label] by blast
  have neg: "s < 0 \<and> \<bar>m\<bar> \<le> 2 ^ 40 * \<bar>s\<bar> \<longrightarrow> generateNormalData (Fin m) (Fin s) label = Some []"
    using generateNormalData_neg [of s m label] by blast
  have rest: "((mean \<in> {NaN, NegInf, PosInf} \<or> std \<in> {NaN, NegInf, PosInf})
      \<longrightarrow> (\<exists>pts. generateNormalData mean std label = Some pts))
   \<and> generateNormalData (Fin m) (Fin 0) label = None
   \<and> js_sub (Fin m) (js_mul (Fin 3) (Fin s)) = Fin (min64 m s)
   \<and> js_add (Fin m) (js_mul (Fin 3) (Fin s)) = Fin (max64 m s)
   \<and> js_div (js_sub (Fin (max64 m s)) (Fin (min64 m s))) (Fin 50) = Fin (step64 m s)
   \<and> (min64 m s = max64 m s \<longrightarrow> generateNormalData (Fin m) (Fin s) label = None)
   \<and> (min64 m s \<le> max64 m s \<and> js_add (Fin (min64 m s)) (Fin (step64 m s)) = Fin (min64 m s)
        \<longrightarrow> generateNormalData (Fin m) (Fin s) label = None)
   \<and> (0 < step64 m s \<and> \<bar>min64 m s\<bar> + \<bar>max64 m s\<bar> + step64 m s \<le> 2 ^ 52 * step64 m s
        \<longrightarrow> (\<exists>pts. generateNormalData (Fin m) (Fin s) label = Some pts))
   \<and> (max64 m s < min64 m s \<longrightarrow> generateNormalData (Fin m) (Fin s) label = Some [])"
    by (simp add: generateNormalData_special generateNormalData_zero generateNormalData_equal
        generateNormalData_stuck generateNormalData_advance generateNormalData_empty js_sub_Fin
        min64_def [symmetric] max64_def [symmetric] step64_def [symmetric])
  from pos neg rest show ?thesis
    by blast
qed

theorem generateNormalData_termination_witness:
  "(\<exists>pts. generateNormalData (Fin 100) (Fin 20) ''Red Alliance'' = Some pts)
   \<and> generateNormalData (Fin 100) (Fin (- 1)) ''Red Alliance'' = Some []
   \<and> generateNormalData (Fin 100) (Fin 0) ''Red Alliance'' = None"
  using generateNormalData_termination [of "Fin 100" "Fin 20" "''Red Alliance''" 20 100]
    generateNormalData_termination [of "Fin 100" "Fin 20" "''Red Alliance''" "- 1" 100]
  by simp

text \<open>
  The claim as stated fails at the mean 100 and the stddev \<open>2\<^sup>-\<^sup>7\<^sup>0\<close>, which is not \<open>0\<close>: three
  times the stddev is lost when it is added to the mean or subtracted from it, \<open>min\<close>
  and \<open>max\<close> are both 100 and the step is \<open>0\<close>.  It fails at the stddev \<open>- 2\<^sup>-\<^sup>7\<^sup>0\<close> in the same
  way, where no empty sequence is returned.  It fails at the mean \<open>2 * 10\<^sup>1\<^sup>7\<close>, which an
  alliance reaches with 100000000000000000 entered as the endgame points of its teams,
  and the stddev 42: \<open>min\<close> is below \<open>max\<close> and the step is about 5.12, but \<open>min + step\<close>
  is \<open>min\<close>.
\<close>

theorem generateNormalData_absorbed_counterexample:
  "generateNormalData (Fin 100) (Fin (1 / 2 ^ 70)) ''Red Alliance'' = None
   \<and> generateNormalData (Fin 100) (Fin (- (1 / 2 ^ 70))) ''Red Alliance'' = None
   \<and> generateNormalData (Fin 200000000000000000) (Fin 42) ''Red Alliance'' = None"
  by (simp only: generateNormalData_tiny generateNormalData_tiny_neg generateNormalData_large)

text \<open>
  C4: at the mean 100 and the stddev 20 the Curve Generator returns 50 points, not 51.
  The \<open>x\<close> of the first is \<open>40\<close>, which is \<open>mean - 3 * stddev\<close>; the \<open>x\<close> of the last is the
  number nearest to \<open>157.6\<close>, below \<open>mean + 3 * stddev = 160\<close>.  The step is the number
  nearest to \<open>2.4\<close>, each of the 50 additions rounds, and the sum is above 160 before the
  point at 160 is pushed.
\<close>

theorem generateNormalData_50_points:
  "\<exists>pts. generateNormalData (Fin 100) (Fin 20) label = Some pts \<and> length pts = 50
     \<and> point_x (hd pts) = Fin 40 \<and> point_x (last pts) = Fin (rd (788 / 5))
     \<and> rd (788 / 5) < 160"
  using generateNormalData_usual_points [of label] rd_788_5 by blast

end
